theory Spec2Isabelle
  imports Complex_Main "HOL-Library.AList"
begin

section \<open>JavaScript values used by the drag handler\<close>

text \<open>
  The coordinates handled by \<^verbatim>\<open>MouseDragHandler\<close> are JavaScript numbers, and some
  of the properties it reads are absent on some events (a \<^verbatim>\<open>TouchEvent\<close> and the
  \<^verbatim>\<open>blur\<close> event have no \<^verbatim>\<open>clientX\<close>), in which case the read yields
  \<^verbatim>\<open>undefined\<close> and arithmetic on it yields \<^verbatim>\<open>NaN\<close>. Finite doubles are
  idealised as reals: rounding, overflow to infinity and the sign of zero are not
  represented.
\<close>

datatype jsval = Undefined | Null | Number real | NaN

fun ToNumber :: "jsval \<Rightarrow> jsval" where
  "ToNumber Undefined = NaN"
| "ToNumber Null = Number 0"
| "ToNumber (Number x) = Number x"
| "ToNumber NaN = NaN"

definition js_minus :: "jsval \<Rightarrow> jsval \<Rightarrow> jsval" where
  "js_minus a b =
     (case ToNumber a of
        Number x \<Rightarrow> (case ToNumber b of Number y \<Rightarrow> Number (x - y) | _ \<Rightarrow> NaN)
      | _ \<Rightarrow> NaN)"

definition js_plus :: "jsval \<Rightarrow> jsval \<Rightarrow> jsval" where
  "js_plus a b =
     (case ToNumber a of
        Number x \<Rightarrow> (case ToNumber b of Number y \<Rightarrow> Number (x + y) | _ \<Rightarrow> NaN)
      | _ \<Rightarrow> NaN)"

definition js_gt :: "jsval \<Rightarrow> jsval \<Rightarrow> bool" where
  "js_gt a b =
     (case ToNumber a of
        Number x \<Rightarrow> (case ToNumber b of Number y \<Rightarrow> y < x | _ \<Rightarrow> False)
      | _ \<Rightarrow> False)"

definition Math_floor :: "jsval \<Rightarrow> jsval" where
  "Math_floor a = (case ToNumber a of Number x \<Rightarrow> Number (of_int \<lfloor>x\<rfloor>) | _ \<Rightarrow> NaN)"

definition Math_pow :: "jsval \<Rightarrow> nat \<Rightarrow> jsval" where
  "Math_pow a n = (case ToNumber a of Number x \<Rightarrow> Number (x ^ n) | _ \<Rightarrow> NaN)"

definition Math_sqrt :: "jsval \<Rightarrow> jsval" where
  "Math_sqrt a =
     (case ToNumber a of Number x \<Rightarrow> (if x < 0 then NaN else Number (sqrt x)) | _ \<Rightarrow> NaN)"

datatype error = TypeError

section \<open>Events\<close>

text \<open>
  A touch point is the pair of its \<^verbatim>\<open>clientX\<close> and \<^verbatim>\<open>clientY\<close>. A DOM event is
  the record of the properties the handler reads. Reading index 0 of an absent or empty
  touch list and then a property of the result throws a \<^verbatim>\<open>TypeError\<close>.
\<close>

type_synonym touch = "real \<times> real"

record dom_event =
  type :: string
  clientX :: jsval
  clientY :: jsval
  touches :: "touch list"
  changedTouches :: "touch list"
  cancelable :: bool

definition MouseEvent :: "string \<Rightarrow> real \<Rightarrow> real \<Rightarrow> dom_event" where
  "MouseEvent t x y =
     \<lparr>type = t, clientX = Number x, clientY = Number y, touches = [], changedTouches = [],
      cancelable = True\<rparr>"

definition TouchEvent :: "string \<Rightarrow> touch list \<Rightarrow> touch list \<Rightarrow> bool \<Rightarrow> dom_event" where
  "TouchEvent t ts cs c =
     \<lparr>type = t, clientX = Undefined, clientY = Undefined, touches = ts, changedTouches = cs,
      cancelable = c\<rparr>"

definition FocusEvent :: "string \<Rightarrow> dom_event" where
  "FocusEvent t =
     \<lparr>type = t, clientX = Undefined, clientY = Undefined, touches = [], changedTouches = [],
      cancelable = False\<rparr>"

text \<open>The event object Konva passes to a stage listener: its type and the native event.\<close>

record konva_event =
  ktype :: string
  evt :: dom_event

fun item0 :: "touch list \<Rightarrow> error + touch" where
  "item0 [] = Inl TypeError"
| "item0 (t # ts) = Inr t"

section \<open>MouseDragHandler\<close>

text \<open>
  The bound methods of the handler, as they are registered as listeners, and the calls
  the handler makes on its collaborators (the caller's handlers and
  \<^verbatim>\<open>preventDefault\<close>), in the order they are made.
\<close>

datatype listener = mouseDown_l | mouseUp_l | mouseMove_l | mouseWheel_l | contextMenu_l

datatype call =
    OnMouseDown jsval jsval konva_event
  | OnMouseMove string jsval jsval dom_event
  | OnMouseUp jsval jsval dom_event
  | OnMouseWheel dom_event
  | PreventDefault dom_event

record DOMRect =
  left :: real
  top :: real

text \<open>
  The handler's own fields (\<^verbatim>\<open>_dragging\<close>, \<^verbatim>\<open>_mouseDownClientX\<close>,
  \<^verbatim>\<open>_mouseDownClientY\<close>, which of the caller's handlers are given, the
  \<^verbatim>\<open>preventContextMenu\<close> option) together with the part of the environment it acts
  on: the listeners registered on the stage, on the stage's container and on the window,
  the rectangle \<^verbatim>\<open>getBoundingClientRect()\<close> of the container returns at present, and
  the calls made so far.
\<close>

record mouse_drag_handler =
  dragging :: bool
  mouseDownClientX :: jsval
  mouseDownClientY :: jsval
  onMouseDown :: bool
  onMouseMove :: bool
  onMouseUp :: bool
  onMouseWheel :: bool
  preventContextMenu :: bool
  stage_listeners :: "(string \<times> listener) list"
  container_listeners :: "(string \<times> listener) list"
  window_listeners :: "(string \<times> listener) list"
  containerPos :: DOMRect
  calls :: "call list"

text \<open>
  \<^verbatim>\<open>addEventListener\<close> ignores a registration that is already present;
  \<^verbatim>\<open>removeEventListener\<close> removes the registration if it is present.
\<close>

definition addEventListener ::
  "string \<Rightarrow> listener \<Rightarrow> (string \<times> listener) list \<Rightarrow> (string \<times> listener) list" where
  "addEventListener t l ls = (if (t, l) \<in> set ls then ls else ls @ [(t, l)])"

definition removeEventListener ::
  "string \<Rightarrow> listener \<Rightarrow> (string \<times> listener) list \<Rightarrow> (string \<times> listener) list" where
  "removeEventListener t l ls = removeAll (t, l) ls"

text \<open>
  The constructor. \<^verbatim>\<open>stage.on\<close> appends a listener; the wheel listener goes on the
  container. The four booleans say which handlers the caller supplied.
\<close>

definition MouseDragHandler ::
  "bool \<Rightarrow> bool \<Rightarrow> bool \<Rightarrow> bool \<Rightarrow> bool \<Rightarrow> DOMRect \<Rightarrow> mouse_drag_handler" where
  "MouseDragHandler down move up wheel prevent rect =
     \<lparr>dragging = False, mouseDownClientX = Null, mouseDownClientY = Null,
      onMouseDown = down, onMouseMove = move, onMouseUp = up, onMouseWheel = wheel,
      preventContextMenu = prevent,
      stage_listeners =
        [(''mousedown'', mouseDown_l), (''touchstart'', mouseDown_l),
         (''contextmenu'', contextMenu_l)],
      container_listeners = addEventListener ''wheel'' mouseWheel_l [],
      window_listeners = [],
      containerPos = rect,
      calls = []\<rparr>"

definition getMousePosX :: "mouse_drag_handler \<Rightarrow> jsval \<Rightarrow> jsval" where
  "getMousePosX s cx = js_minus cx (Number (left (containerPos s)))"

definition getMousePosY :: "mouse_drag_handler \<Rightarrow> jsval \<Rightarrow> jsval" where
  "getMousePosY s cy = js_minus cy (Number (top (containerPos s)))"

definition isDragging :: "mouse_drag_handler \<Rightarrow> bool" where
  "isDragging s = dragging s"

text \<open>
  \<^verbatim>\<open>_mouseDown\<close>. Its first statement tests \<^verbatim>\<open>this.__handleDrag\<close>, a property
  that is never assigned (the constructor sets \<^verbatim>\<open>_handleDrag\<close>), so the test reads
  \<^verbatim>\<open>undefined\<close> and the marker check is never made. The Y position given to
  \<^verbatim>\<open>onMouseDown\<close> is computed from \<^verbatim>\<open>event.evt.clientY\<close>, the X position from
  the recorded \<^verbatim>\<open>_mouseDownClientX\<close>.
\<close>

definition mouseDown_client :: "konva_event \<Rightarrow> error + (jsval \<times> jsval)" where
  "mouseDown_client event =
     (if ktype event = ''touchstart'' then
        (case item0 (touches (evt event)) of
           Inl e \<Rightarrow> Inl e
         | Inr t \<Rightarrow> Inr (Math_floor (Number (fst t)), Math_floor (Number (snd t))))
      else Inr (clientX (evt event), clientY (evt event)))"

definition window_registrations :: "(string \<times> listener) list" where
  "window_registrations =
     [(''mousemove'', mouseMove_l), (''touchmove'', mouseMove_l), (''mouseup'', mouseUp_l),
      (''touchend'', mouseUp_l), (''blur'', mouseUp_l)]"

definition mouseDown :: "konva_event \<Rightarrow> mouse_drag_handler \<Rightarrow> error + mouse_drag_handler" where
  "mouseDown event s =
     (case mouseDown_client event of
        Inl e \<Rightarrow> Inl e
      | Inr (x, y) \<Rightarrow>
          let s1 = s\<lparr>mouseDownClientX := x, mouseDownClientY := y\<rparr>;
              s2 = (if onMouseDown s1 then
                      let mouseDownPosX = getMousePosX s1 (mouseDownClientX s1);
                          mouseDownPosY = getMousePosY s1 (clientY (evt event))
                      in s1\<lparr>calls := calls s1 @ [OnMouseDown mouseDownPosX mouseDownPosY event]\<rparr>
                    else s1)
          in Inr (s2\<lparr>window_listeners :=
                    fold (\<lambda>(t, l). addEventListener t l) window_registrations
                      (window_listeners s2)\<rparr>))"

definition mouseWheel :: "dom_event \<Rightarrow> mouse_drag_handler \<Rightarrow> mouse_drag_handler" where
  "mouseWheel event s =
     (if onMouseWheel s then s\<lparr>calls := calls s @ [OnMouseWheel event]\<rparr> else s)"

definition contextMenu :: "konva_event \<Rightarrow> mouse_drag_handler \<Rightarrow> mouse_drag_handler" where
  "contextMenu event s =
     (if preventContextMenu s then s\<lparr>calls := calls s @ [PreventDefault (evt event)]\<rparr> else s)"

text \<open>
  \<^verbatim>\<open>_mouseMove\<close>: the client point of the move (floored for a touch move), the
  distance to the recorded origin, the threshold test, and the forwarding of the move.
\<close>

definition mouseMove_client :: "dom_event \<Rightarrow> error + (jsval \<times> jsval)" where
  "mouseMove_client event =
     (if type event = ''touchmove'' then
        (case item0 (changedTouches event) of
           Inl e \<Rightarrow> Inl e
         | Inr t \<Rightarrow> Inr (Math_floor (Number (fst t)), Math_floor (Number (snd t))))
      else Inr (clientX event, clientY event))"

definition delta :: "mouse_drag_handler \<Rightarrow> jsval \<Rightarrow> jsval \<Rightarrow> jsval" where
  "delta s cx cy =
     Math_sqrt (js_plus (Math_pow (js_minus cx (mouseDownClientX s)) 2)
                        (Math_pow (js_minus cy (mouseDownClientY s)) 2))"

definition mouseMove :: "dom_event \<Rightarrow> mouse_drag_handler \<Rightarrow> error + mouse_drag_handler" where
  "mouseMove event s =
     (case mouseMove_client event of
        Inl e \<Rightarrow> Inl e
      | Inr (cx, cy) \<Rightarrow>
          let s1 = (if js_gt (delta s cx cy) (Number 3) then s\<lparr>dragging := True\<rparr> else s);
              s2 = (if onMouseMove s1 then
                      let mousePosX = getMousePosX s1 cx;
                          mousePosY = getMousePosY s1 cy
                      in s1\<lparr>calls := calls s1 @ [OnMouseMove (type event) mousePosX mousePosY event]\<rparr>
                    else s1)
          in Inr s2)"

text \<open>
  \<^verbatim>\<open>_mouseUp\<close>, in the three steps the source makes after reading the client point:
  the call of \<^verbatim>\<open>onMouseUp\<close>, the removal of the window listeners, the reset of the
  dragging flag.
\<close>

definition mouseUp_client :: "dom_event \<Rightarrow> mouse_drag_handler \<Rightarrow> error + (jsval \<times> jsval \<times> mouse_drag_handler)" where
  "mouseUp_client event s =
     (if type event = ''touchend'' then
        (case item0 (changedTouches event) of
           Inl e \<Rightarrow> Inl e
         | Inr t \<Rightarrow>
             Inr (Math_floor (Number (fst t)), Math_floor (Number (snd t)),
                  (if cancelable event then s\<lparr>calls := calls s @ [PreventDefault event]\<rparr> else s)))
      else Inr (clientX event, clientY event, s))"

definition mouseUp_notify :: "dom_event \<Rightarrow> jsval \<Rightarrow> jsval \<Rightarrow> mouse_drag_handler \<Rightarrow> mouse_drag_handler" where
  "mouseUp_notify event cx cy s =
     (if onMouseUp s then
        let mousePosX = getMousePosX s cx;
            mousePosY = getMousePosY s cy
        in s\<lparr>calls := calls s @ [OnMouseUp mousePosX mousePosY event]\<rparr>
      else s)"

definition mouseUp_unlisten :: "mouse_drag_handler \<Rightarrow> mouse_drag_handler" where
  "mouseUp_unlisten s =
     s\<lparr>window_listeners :=
         fold (\<lambda>(t, l). removeEventListener t l) window_registrations (window_listeners s)\<rparr>"

definition mouseUp :: "dom_event \<Rightarrow> mouse_drag_handler \<Rightarrow> error + mouse_drag_handler" where
  "mouseUp event s =
     (case mouseUp_client event s of
        Inl e \<Rightarrow> Inl e
      | Inr (cx, cy, s0) \<Rightarrow>
          let s1 = mouseUp_notify event cx cy s0;
              s2 = mouseUp_unlisten s1
          in Inr (s2\<lparr>dragging := False\<rparr>))"

text \<open>
  The delivery of an event to the window: the listeners registered for its type are
  called in the order of their registration; one that was removed meanwhile is not
  called; an exception ends the delivery.
\<close>

fun invoke :: "listener \<Rightarrow> dom_event \<Rightarrow> mouse_drag_handler \<Rightarrow> error + mouse_drag_handler" where
  "invoke mouseMove_l e s = mouseMove e s"
| "invoke mouseUp_l e s = mouseUp e s"
| "invoke mouseWheel_l e s = Inr (mouseWheel e s)"
| "invoke mouseDown_l e s = mouseDown \<lparr>ktype = type e, evt = e\<rparr> s"
| "invoke contextMenu_l e s = Inr (contextMenu \<lparr>ktype = type e, evt = e\<rparr> s)"

fun deliver :: "listener list \<Rightarrow> dom_event \<Rightarrow> mouse_drag_handler \<Rightarrow> error + mouse_drag_handler" where
  "deliver [] e s = Inr s"
| "deliver (l # ls) e s =
     (if (type e, l) \<in> set (window_listeners s) then
        (case invoke l e s of Inl err \<Rightarrow> Inl err | Inr s' \<Rightarrow> deliver ls e s')
      else deliver ls e s)"

definition window_dispatch :: "dom_event \<Rightarrow> mouse_drag_handler \<Rightarrow> error + mouse_drag_handler" where
  "window_dispatch e s =
     deliver (map snd (filter (\<lambda>p. fst p = type e) (window_listeners s))) e s"

fun window_dispatches :: "dom_event list \<Rightarrow> mouse_drag_handler \<Rightarrow> error + mouse_drag_handler" where
  "window_dispatches [] s = Inr s"
| "window_dispatches (e # es) s =
     (case window_dispatch e s of Inl err \<Rightarrow> Inl err | Inr s' \<Rightarrow> window_dispatches es s')"

text \<open>
  The operations the handler offers: the listeners it registers and its three methods.
  The source defines no other method.
\<close>

datatype operation =
    Op_mouseDown konva_event
  | Op_mouseMove dom_event
  | Op_mouseUp dom_event
  | Op_mouseWheel dom_event
  | Op_contextMenu konva_event
  | Op_getMousePosX jsval
  | Op_getMousePosY jsval
  | Op_isDragging

fun apply_op :: "operation \<Rightarrow> mouse_drag_handler \<Rightarrow> error + mouse_drag_handler" where
  "apply_op (Op_mouseDown e) s = mouseDown e s"
| "apply_op (Op_mouseMove e) s = mouseMove e s"
| "apply_op (Op_mouseUp e) s = mouseUp e s"
| "apply_op (Op_mouseWheel e) s = Inr (mouseWheel e s)"
| "apply_op (Op_contextMenu e) s = Inr (contextMenu e s)"
| "apply_op (Op_getMousePosX x) s = Inr s"
| "apply_op (Op_getMousePosY y) s = Inr s"
| "apply_op Op_isDragging s = Inr s"

fun is_release :: "operation \<Rightarrow> bool" where
  "is_release (Op_mouseUp e) = True"
| "is_release _ = False"

section \<open>Segments, the segment store and the view\<close>

text \<open>
  A segment is a mutable object shared by the store, the notifications and the shapes
  that display it; an object is named by a reference into a heap. The fields are the ones
  the layer depends on: the id (the key of the layer's table of shapes), the time range
  and the hidden flag.
\<close>

type_synonym seg_ref = nat

record segment =
  seg_id :: string
  startTime :: real
  endTime :: real
  hidden :: bool

text \<open>
  Modelled from the spec: \<^verbatim>\<open>Segment.prototype.isVisible\<close> is not among the sources.
  The spec takes a segment to be visible in a range when its time range overlaps it.
\<close>

definition isVisible :: "segment \<Rightarrow> real \<Rightarrow> real \<Rightarrow> bool" where
  "isVisible seg t0 t1 = (startTime seg < t1 \<and> t0 < endTime seg)"

text \<open>
  Modelled from the spec: \<^verbatim>\<open>Segment.prototype.isHidden\<close> is not among the sources.
  Called with \<^verbatim>\<open>true\<close> it marks the segment hidden.
\<close>

definition isHidden_set :: "bool \<Rightarrow> segment \<Rightarrow> segment" where
  "isHidden_set b seg = seg\<lparr>hidden := b\<rparr>"

text \<open>
  A \<^verbatim>\<open>SegmentShape\<close> is opaque to the layer apart from \<^verbatim>\<open>getSegment()\<close>; each
  object created has a number of its own. The calls the layer makes on shapes and on its
  Konva layer are recorded in the order they are made.
\<close>

record segment_shape =
  shape_no :: nat
  getSegment :: seg_ref

datatype effect =
    New_SegmentShape segment_shape
  | AddToLayer segment_shape
  | UpdatePosition segment_shape
  | ShapeHide segment_shape
  | ShapeDestroy segment_shape
  | LayerRemoveChildren
  | LayerDraw

record view =
  getFrameOffset :: real
  getWidth :: real
  pixelsToTime :: "real \<Rightarrow> real"
  getName :: string

datatype handler =
    onSegmentsUpdate_h | onSegmentsAdd_h | onSegmentsRemove_h | onSegmentsHide_h
  | onSegmentsRemoveAll_h | onSegmentsDragged_h

text \<open>
  The layer (\<^verbatim>\<open>_segmentShapes\<close>, a table from segment id to shape, kept in the order
  of insertion) together with the collaborators it acts on: the heap of segment objects,
  the segments held by the store (\<^verbatim>\<open>peaks.segments\<close>), the listeners registered
  with \<^verbatim>\<open>peaks.on\<close>, the view, and the calls made so far. JavaScript enumerates
  keys that are array indices before the others; the order of the table only decides the
  order in which \<^verbatim>\<open>_removeInvisibleSegments\<close> and \<^verbatim>\<open>destroy\<close> visit the shapes.
\<close>

record layer_world =
  segmentShapes :: "(string \<times> segment_shape) list"
  next_shape_no :: nat
  view :: view
  heap :: "seg_ref \<Rightarrow> segment"
  segments :: "seg_ref list"
  subscriptions :: "(string \<times> handler) list"
  effects :: "effect list"

text \<open>
  \<^verbatim>\<open>_segmentShapes\<close> is a plain object, created by \<^verbatim>\<open>{}\<close>. Reading a key
  that the table does not hold itself yields what \<^verbatim>\<open>Object.prototype\<close> holds under
  that name (a function, or the prototype object itself for \<^verbatim>\<open>__proto__\<close>), and
  \<^verbatim>\<open>undefined\<close> for every other name. A value inherited in this way is truthy and
  has none of the methods of a shape, so that calling one on it throws a
  \<^verbatim>\<open>TypeError\<close>. Assigning to the key \<^verbatim>\<open>__proto__\<close> stores no entry: it
  replaces the prototype of the table by the shape, and what the table inherits from
  then on depends on \<^verbatim>\<open>SegmentShape\<close>, which is not among the sources; the model
  stops there with \<open>PrototypeReplaced\<close>. Assigning to any other key stores the entry,
  also under a name of \<^verbatim>\<open>Object.prototype\<close>, which it shadows.
\<close>

datatype stop = TypeError | PrototypeReplaced

definition Object_prototype_names :: "string list" where
  "Object_prototype_names =
     [''constructor'', ''__defineGetter__'', ''__defineSetter__'', ''hasOwnProperty'',
      ''__lookupGetter__'', ''__lookupSetter__'', ''isPrototypeOf'',
      ''propertyIsEnumerable'', ''toString'', ''valueOf'', ''__proto__'',
      ''toLocaleString'']"

datatype table_value = no_value | shape_value segment_shape | inherited_value

definition get_property :: "(string \<times> segment_shape) list \<Rightarrow> string \<Rightarrow> table_value" where
  "get_property tbl k =
     (case map_of tbl k of
        Some sh \<Rightarrow> shape_value sh
      | None \<Rightarrow> if k \<in> set Object_prototype_names then inherited_value else no_value)"

definition set_property ::
  "string \<Rightarrow> segment_shape \<Rightarrow> (string \<times> segment_shape) list \<Rightarrow>
     stop + (string \<times> segment_shape) list" where
  "set_property k sh tbl =
     (if k = ''__proto__'' then Inl PrototypeReplaced else Inr (AList.update k sh tbl))"

text \<open>
  \<^verbatim>\<open>forEach\<close> with a callback that may throw: the exception ends the loop.
\<close>

fun forEach :: "('a \<Rightarrow> 's \<Rightarrow> stop + 's) \<Rightarrow> 'a list \<Rightarrow> 's \<Rightarrow> stop + 's" where
  "forEach f [] s = Inr s"
| "forEach f (x # xs) s = (case f x s of Inl e \<Rightarrow> Inl e | Inr s' \<Rightarrow> forEach f xs s')"

text \<open>
  Modelled from the spec: the store's query \<^verbatim>\<open>find(startTime, endTime)\<close> and the
  subscription interface \<^verbatim>\<open>on\<close>/\<^verbatim>\<open>off\<close> are not among the sources. The query
  returns the segments of the store that overlap the range; \<^verbatim>\<open>on\<close> adds a listener
  for a topic and \<^verbatim>\<open>off\<close> removes it.
\<close>

definition find_segments :: "layer_world \<Rightarrow> real \<Rightarrow> real \<Rightarrow> seg_ref list" where
  "find_segments w t0 t1 = filter (\<lambda>r. isVisible (heap w r) t0 t1) (segments w)"

definition peaks_on :: "string \<Rightarrow> handler \<Rightarrow> (string \<times> handler) list \<Rightarrow> (string \<times> handler) list" where
  "peaks_on t h subs = subs @ [(t, h)]"

definition peaks_off :: "string \<Rightarrow> handler \<Rightarrow> (string \<times> handler) list \<Rightarrow> (string \<times> handler) list" where
  "peaks_off t h subs = remove1 (t, h) subs"

section \<open>SegmentsLayer\<close>

text \<open>
  The constructor: an empty table of shapes, and the six listeners registered with
  \<^verbatim>\<open>peaks.on\<close> in the order of the source, after the listeners \<open>subs\<close> that are
  registered already.
\<close>

definition SegmentsLayer ::
  "view \<Rightarrow> (seg_ref \<Rightarrow> segment) \<Rightarrow> seg_ref list \<Rightarrow> (string \<times> handler) list \<Rightarrow> layer_world" where
  "SegmentsLayer v h segs subs =
     \<lparr>segmentShapes = [], next_shape_no = 0, view = v, heap = h, segments = segs,
      subscriptions =
        peaks_on ''segments.dragged'' onSegmentsDragged_h
          (peaks_on ''segments.remove_all'' onSegmentsRemoveAll_h
            (peaks_on ''segments.hide'' onSegmentsHide_h
              (peaks_on ''segments.remove'' onSegmentsRemove_h
                (peaks_on ''segments.add'' onSegmentsAdd_h
                  (peaks_on ''segments.update'' onSegmentsUpdate_h subs))))),
      effects = []\<rparr>"

text \<open>
  \<^verbatim>\<open>draw\<close> redraws the Konva layer unless the view is the overview.
\<close>

definition draw :: "layer_world \<Rightarrow> layer_world" where
  "draw w = (if getName (view w) = ''overview'' then w else w\<lparr>effects := effects w @ [LayerDraw]\<rparr>)"

text \<open>
  \<^verbatim>\<open>_createSegmentShape\<close> makes a new shape for the segment;
  \<^verbatim>\<open>_addSegmentShape\<close> adds it to the Konva layer unless the view is the overview
  and assigns it to the table under the segment's id (an assignment to a key that is
  present replaces the shape and keeps the key's place);
  \<^verbatim>\<open>_findOrAddSegmentShape\<close> returns what the table yields under the segment's id
  if that is truthy, and adds a shape otherwise; \<^verbatim>\<open>_updateSegment\<close> then calls
  \<^verbatim>\<open>updatePosition()\<close> on the value it got.
\<close>

definition createSegmentShape :: "seg_ref \<Rightarrow> layer_world \<Rightarrow> segment_shape \<times> layer_world" where
  "createSegmentShape segment w =
     (let segmentShape = \<lparr>shape_no = next_shape_no w, getSegment = segment\<rparr>
      in (segmentShape,
          w\<lparr>next_shape_no := Suc (next_shape_no w),
            effects := effects w @ [New_SegmentShape segmentShape]\<rparr>))"

definition addSegmentShape :: "seg_ref \<Rightarrow> layer_world \<Rightarrow> stop + (segment_shape \<times> layer_world)" where
  "addSegmentShape segment w =
     (let (segmentShape, w1) = createSegmentShape segment w;
          w2 = (if getName (view w1) \<noteq> ''overview''
                then w1\<lparr>effects := effects w1 @ [AddToLayer segmentShape]\<rparr> else w1)
      in case set_property (seg_id (heap w2 segment)) segmentShape (segmentShapes w2) of
           Inl e \<Rightarrow> Inl e
         | Inr tbl \<Rightarrow> Inr (segmentShape, w2\<lparr>segmentShapes := tbl\<rparr>))"

definition findOrAddSegmentShape :: "seg_ref \<Rightarrow> layer_world \<Rightarrow> stop + (table_value \<times> layer_world)" where
  "findOrAddSegmentShape segment w =
     (case get_property (segmentShapes w) (seg_id (heap w segment)) of
        no_value \<Rightarrow>
          (case addSegmentShape segment w of
             Inl e \<Rightarrow> Inl e
           | Inr (segmentShape, w') \<Rightarrow> Inr (shape_value segmentShape, w'))
      | segmentShape \<Rightarrow> Inr (segmentShape, w))"

definition updateSegment :: "seg_ref \<Rightarrow> layer_world \<Rightarrow> stop + layer_world" where
  "updateSegment segment w =
     (case findOrAddSegmentShape segment w of
        Inl e \<Rightarrow> Inl e
      | Inr (v, w1) \<Rightarrow>
          (case v of
             shape_value segmentShape \<Rightarrow>
               Inr (w1\<lparr>effects := effects w1 @ [UpdatePosition segmentShape]\<rparr>)
           | _ \<Rightarrow> Inl TypeError))"

text \<open>
  \<^verbatim>\<open>_removeSegment\<close> and \<^verbatim>\<open>_hideSegment\<close> act only if the table yields a truthy
  value under the segment's id: the first calls \<^verbatim>\<open>destroy()\<close> on it and deletes
  the key, the second calls \<^verbatim>\<open>hide()\<close> on it and marks the segment hidden.
\<close>

definition removeSegment :: "seg_ref \<Rightarrow> layer_world \<Rightarrow> stop + layer_world" where
  "removeSegment segment w =
     (case get_property (segmentShapes w) (seg_id (heap w segment)) of
        no_value \<Rightarrow> Inr w
      | shape_value segmentShape \<Rightarrow>
          Inr (w\<lparr>effects := effects w @ [ShapeDestroy segmentShape],
                 segmentShapes := AList.delete (seg_id (heap w segment)) (segmentShapes w)\<rparr>)
      | inherited_value \<Rightarrow> Inl TypeError)"

definition hideSegment :: "seg_ref \<Rightarrow> layer_world \<Rightarrow> stop + layer_world" where
  "hideSegment segment w =
     (case get_property (segmentShapes w) (seg_id (heap w segment)) of
        no_value \<Rightarrow> Inr w
      | shape_value segmentShape \<Rightarrow>
          Inr (w\<lparr>effects := effects w @ [ShapeHide segmentShape],
                 heap := (heap w)(segment := isHidden_set True (heap w segment))\<rparr>)
      | inherited_value \<Rightarrow> Inl TypeError)"

text \<open>
  Modelled from the spec: \<^verbatim>\<open>Utils.objectHasProperty\<close> is not among the sources; it
  tells whether an object holds a key itself, as opposed to inheriting it.
  In \<^verbatim>\<open>_removeInvisibleSegments\<close> the \<^verbatim>\<open>for-in\<close> loop visits the keys the table
  holds itself when the loop starts, and skips a key deleted before its turn.
\<close>

fun removeInvisible_loop ::
  "string list \<Rightarrow> real \<Rightarrow> real \<Rightarrow> layer_world \<times> nat \<Rightarrow> stop + (layer_world \<times> nat)" where
  "removeInvisible_loop [] t0 t1 (w, count) = Inr (w, count)"
| "removeInvisible_loop (segmentId # ids) t0 t1 (w, count) =
     (case map_of (segmentShapes w) segmentId of
        None \<Rightarrow> removeInvisible_loop ids t0 t1 (w, count)
      | Some segmentShape \<Rightarrow>
          let segment = getSegment segmentShape
          in if \<not> isVisible (heap w segment) t0 t1
             then (case removeSegment segment w of
                     Inl e \<Rightarrow> Inl e
                   | Inr w' \<Rightarrow> removeInvisible_loop ids t0 t1 (w', count + 1))
             else removeInvisible_loop ids t0 t1 (w, count))"

definition removeInvisibleSegments :: "real \<Rightarrow> real \<Rightarrow> layer_world \<Rightarrow> stop + (layer_world \<times> nat)" where
  "removeInvisibleSegments t0 t1 w =
     removeInvisible_loop (map fst (segmentShapes w)) t0 t1 (w, 0)"

text \<open>
  \<^verbatim>\<open>updateSegments\<close>: the segments \<^verbatim>\<open>find\<close> returns are updated in order, the
  shapes of invisible segments are removed, and the layer is redrawn if the number of
  segments found plus the number of shapes removed is positive.
\<close>

definition updateSegments :: "real \<Rightarrow> real \<Rightarrow> layer_world \<Rightarrow> stop + layer_world" where
  "updateSegments t0 t1 w =
     (let segs = find_segments w t0 t1;
          count = length segs
      in case forEach updateSegment segs w of
           Inl e \<Rightarrow> Inl e
         | Inr w1 \<Rightarrow>
             (case removeInvisibleSegments t0 t1 w1 of
                Inl e \<Rightarrow> Inl e
              | Inr (w2, removed) \<Rightarrow>
                  let count = count + removed
                  in Inr (if count > 0 then draw w2 else w2)))"

text \<open>
  The listeners. Those of the update and add notifications compute the visible range from
  the view (\<^verbatim>\<open>pixelsToTime(frameOffset)\<close> to
  \<^verbatim>\<open>pixelsToTime(frameOffset + width)\<close>) and finish with
  \<^verbatim>\<open>updateSegments\<close>; \<^verbatim>\<open>_onSegmentsUpdate\<close> does so only if it removed or added
  a shape. The others finish with \<^verbatim>\<open>draw\<close>.
\<close>

definition frameStartTime :: "layer_world \<Rightarrow> real" where
  "frameStartTime w = pixelsToTime (view w) (getFrameOffset (view w))"

definition frameEndTime :: "layer_world \<Rightarrow> real" where
  "frameEndTime w = pixelsToTime (view w) (getFrameOffset (view w) + getWidth (view w))"

definition onSegmentsUpdate :: "seg_ref \<Rightarrow> layer_world \<Rightarrow> stop + layer_world" where
  "onSegmentsUpdate segment w =
     (let redraw = False;
          segmentShape = get_property (segmentShapes w) (seg_id (heap w segment))
      in case (if segmentShape \<noteq> no_value
               then (case removeSegment segment w of
                       Inl e \<Rightarrow> Inl e | Inr w' \<Rightarrow> Inr (w', True))
               else Inr (w, redraw)) of
           Inl e \<Rightarrow> Inl e
         | Inr (w1, redraw) \<Rightarrow>
             (case (if isVisible (heap w1 segment) (frameStartTime w) (frameEndTime w)
                    then (case addSegmentShape segment w1 of
                            Inl e \<Rightarrow> Inl e | Inr (sh, w') \<Rightarrow> Inr (w', True))
                    else Inr (w1, redraw)) of
                Inl e \<Rightarrow> Inl e
              | Inr (w2, redraw) \<Rightarrow>
                  if redraw then updateSegments (frameStartTime w) (frameEndTime w) w2
                  else Inr w2))"

definition onSegmentsAdd :: "seg_ref list \<Rightarrow> layer_world \<Rightarrow> stop + layer_world" where
  "onSegmentsAdd segs w =
     (case forEach (\<lambda>segment w'.
               if isVisible (heap w' segment) (frameStartTime w) (frameEndTime w)
               then (case addSegmentShape segment w' of
                       Inl e \<Rightarrow> Inl e | Inr (sh, w'') \<Rightarrow> Inr w'')
               else Inr w') segs w of
        Inl e \<Rightarrow> Inl e
      | Inr w1 \<Rightarrow> updateSegments (frameStartTime w) (frameEndTime w) w1)"

definition onSegmentsHide :: "seg_ref list \<Rightarrow> layer_world \<Rightarrow> stop + layer_world" where
  "onSegmentsHide segs w =
     (case forEach hideSegment segs w of Inl e \<Rightarrow> Inl e | Inr w1 \<Rightarrow> Inr (draw w1))"

definition onSegmentsRemove :: "seg_ref list \<Rightarrow> layer_world \<Rightarrow> stop + layer_world" where
  "onSegmentsRemove segs w =
     (case forEach removeSegment segs w of Inl e \<Rightarrow> Inl e | Inr w1 \<Rightarrow> Inr (draw w1))"

definition onSegmentsRemoveAll :: "layer_world \<Rightarrow> layer_world" where
  "onSegmentsRemoveAll w =
     draw (w\<lparr>effects := effects w @ [LayerRemoveChildren], segmentShapes := []\<rparr>)"

definition onSegmentsDragged :: "seg_ref \<Rightarrow> layer_world \<Rightarrow> stop + layer_world" where
  "onSegmentsDragged segment w =
     (case updateSegment segment w of Inl e \<Rightarrow> Inl e | Inr w1 \<Rightarrow> Inr (draw w1))"

text \<open>
  \<^verbatim>\<open>destroy\<close>: every shape the table holds is destroyed, in the table's order, and
  five listeners are removed. The table itself is left as it is.
\<close>

definition destroy :: "layer_world \<Rightarrow> layer_world" where
  "destroy w =
     (let w1 = w\<lparr>effects := effects w @ map (\<lambda>p. ShapeDestroy (snd p)) (segmentShapes w)\<rparr>
      in w1\<lparr>subscriptions :=
              peaks_off ''segments.dragged'' onSegmentsDragged_h
                (peaks_off ''segments.remove_all'' onSegmentsRemoveAll_h
                  (peaks_off ''segments.remove'' onSegmentsRemove_h
                    (peaks_off ''segments.add'' onSegmentsAdd_h
                      (peaks_off ''segments.update'' onSegmentsUpdate_h (subscriptions w1)))))\<rparr>)"

section \<open>Notifications of the store\<close>

datatype notification =
    n_update seg_ref
  | n_add "seg_ref list"
  | n_remove "seg_ref list"
  | n_hide "seg_ref list"
  | n_remove_all
  | n_dragged seg_ref

fun topic :: "notification \<Rightarrow> string" where
  "topic (n_update r) = ''segments.update''"
| "topic (n_add rs) = ''segments.add''"
| "topic (n_remove rs) = ''segments.remove''"
| "topic (n_hide rs) = ''segments.hide''"
| "topic n_remove_all = ''segments.remove_all''"
| "topic (n_dragged r) = ''segments.dragged''"

text \<open>A listener called with a notification; each is registered for its own topic only.\<close>

fun call_handler :: "handler \<Rightarrow> notification \<Rightarrow> layer_world \<Rightarrow> stop + layer_world" where
  "call_handler onSegmentsUpdate_h n w =
     (case n of n_update r \<Rightarrow> onSegmentsUpdate r w | _ \<Rightarrow> Inr w)"
| "call_handler onSegmentsAdd_h n w =
     (case n of n_add rs \<Rightarrow> onSegmentsAdd rs w | _ \<Rightarrow> Inr w)"
| "call_handler onSegmentsRemove_h n w =
     (case n of n_remove rs \<Rightarrow> onSegmentsRemove rs w | _ \<Rightarrow> Inr w)"
| "call_handler onSegmentsHide_h n w =
     (case n of n_hide rs \<Rightarrow> onSegmentsHide rs w | _ \<Rightarrow> Inr w)"
| "call_handler onSegmentsRemoveAll_h n w =
     (case n of n_remove_all \<Rightarrow> Inr (onSegmentsRemoveAll w) | _ \<Rightarrow> Inr w)"
| "call_handler onSegmentsDragged_h n w =
     (case n of n_dragged r \<Rightarrow> onSegmentsDragged r w | _ \<Rightarrow> Inr w)"

text \<open>
  Modelled from the spec: the emitter of the store is not among the sources. A
  notification is delivered to the listeners registered for its topic when it is
  emitted, in the order of registration.
\<close>

definition emit :: "notification \<Rightarrow> layer_world \<Rightarrow> stop + layer_world" where
  "emit n w =
     forEach (\<lambda>h w'. call_handler h n w')
       (map snd (filter (\<lambda>p. fst p = topic n) (subscriptions w))) w"

text \<open>
  Modelled from the spec: the operations of the store are not among the sources. Each
  changes the store and then emits its notification: segments are added (their ids are
  unique in the store), the time range of a segment of the store is changed, segments are
  removed, or all are removed.
\<close>

datatype store_op =
    Add "seg_ref list"
  | Update seg_ref real real
  | Remove "seg_ref list"
  | RemoveAll

fun valid_op :: "store_op \<Rightarrow> layer_world \<Rightarrow> bool" where
  "valid_op (Add rs) w = distinct (map (\<lambda>r. seg_id (heap w r)) (segments w @ rs))"
| "valid_op (Update r st en) w = (r \<in> set (segments w))"
| "valid_op (Remove rs) w = True"
| "valid_op RemoveAll w = True"

fun store_step :: "store_op \<Rightarrow> layer_world \<Rightarrow> stop + layer_world" where
  "store_step (Add rs) w = emit (n_add rs) (w\<lparr>segments := segments w @ rs\<rparr>)"
| "store_step (Update r st en) w =
     emit (n_update r)
       (w\<lparr>heap := (heap w)(r := (heap w r)\<lparr>startTime := st, endTime := en\<rparr>)\<rparr>)"
| "store_step (Remove rs) w =
     emit (n_remove rs) (w\<lparr>segments := filter (\<lambda>r. r \<notin> set rs) (segments w)\<rparr>)"
| "store_step RemoveAll w = emit n_remove_all (w\<lparr>segments := []\<rparr>)"

text \<open>
  A sequence of operations of the store: \<open>None\<close> if the store refuses one of them,
  otherwise how the last notification handled ended.
\<close>

fun run :: "store_op list \<Rightarrow> layer_world \<Rightarrow> (stop + layer_world) option" where
  "run [] w = Some (Inr w)"
| "run (op # ops) w =
     (if valid_op op w
      then (case store_step op w of Inl e \<Rightarrow> Some (Inl e) | Inr w' \<Rightarrow> run ops w')
      else None)"

text \<open>The ids that hold a shape, and the number of redraws of the Konva layer so far.\<close>

definition proxies :: "layer_world \<Rightarrow> string set" where
  "proxies w = fst ` set (segmentShapes w)"

definition redraws :: "layer_world \<Rightarrow> nat" where
  "redraws w = count_list (effects w) LayerDraw"

text \<open>
  The listeners of a layer constructed on an emitter that has no other listener.
\<close>

definition layer_subscriptions :: "(string \<times> handler) list" where
  "layer_subscriptions =
     [(''segments.update'', onSegmentsUpdate_h), (''segments.add'', onSegmentsAdd_h),
      (''segments.remove'', onSegmentsRemove_h), (''segments.hide'', onSegmentsHide_h),
      (''segments.remove_all'', onSegmentsRemoveAll_h),
      (''segments.dragged'', onSegmentsDragged_h)]"

text \<open>
  What the layer and the store agree on between two notifications: the table has one
  entry per key, every shape of the table displays a segment of the store under that
  segment's id, and the ids of the store are unique.
\<close>

definition consistent :: "layer_world \<Rightarrow> bool" where
  "consistent w =
     (distinct (map fst (segmentShapes w)) \<and>
      list_all (\<lambda>p. getSegment (snd p) \<in> set (segments w) \<and>
                     seg_id (heap w (getSegment (snd p))) = fst p) (segmentShapes w) \<and>
      distinct (map (\<lambda>r. seg_id (heap w r)) (segments w)))"

section \<open>Example inputs\<close>

definition example_handler :: mouse_drag_handler where
  "example_handler = MouseDragHandler True True True True False \<lparr>left = 50, top = 20\<rparr>"

definition example_press :: konva_event where
  "example_press = \<lparr>ktype = ''mousedown'', evt = MouseEvent ''mousedown'' 100 100\<rparr>"

definition example_pressed :: mouse_drag_handler where
  "example_pressed = (case mouseDown example_press example_handler of Inr s \<Rightarrow> s | Inl e \<Rightarrow> example_handler)"

definition example_touchmove :: dom_event where
  "example_touchmove = TouchEvent ''touchmove'' [(1039 / 10, 1009 / 10)] [(1039 / 10, 1009 / 10)] True"

definition example_dragging :: mouse_drag_handler where
  "example_dragging =
     (case window_dispatch (MouseEvent ''mousemove'' 104 100) example_pressed of
        Inr s \<Rightarrow> s | Inl e \<Rightarrow> example_pressed)"

definition example_touchstart :: konva_event where
  "example_touchstart =
     \<lparr>ktype = ''touchstart'',
      evt = TouchEvent ''touchstart'' [(107 / 10, 203 / 10)] [(107 / 10, 203 / 10)] True\<rparr>"

definition example_view :: view where
  "example_view = \<lparr>getFrameOffset = 0, getWidth = 1000, pixelsToTime = (\<lambda>p. p / 50),
                    getName = ''zoomview''\<rparr>"

definition example_heap :: "seg_ref \<Rightarrow> segment" where
  "example_heap r =
     (if r = 0 then \<lparr>seg_id = ''s1'', startTime = 5, endTime = 10, hidden = False\<rparr>
      else if r = 1 then \<lparr>seg_id = ''s2'', startTime = 30, endTime = 40, hidden = False\<rparr>
      else if r = 2 then \<lparr>seg_id = ''s3'', startTime = 12, endTime = 15, hidden = False\<rparr>
      else \<lparr>seg_id = ''s4'', startTime = 6, endTime = 9, hidden = True\<rparr>)"

definition example_layer :: layer_world where
  "example_layer = SegmentsLayer example_view example_heap [] []"



definition example_named_layer :: layer_world where
  "example_named_layer =
     SegmentsLayer example_view
       (\<lambda>r. \<lparr>seg_id = ''constructor'', startTime = 30, endTime = 40, hidden = False\<rparr>) [] []"

definition example_named_added :: layer_world where
  "example_named_added =
     (case store_step (Add [0]) example_named_layer of Inr w \<Rightarrow> w | Inl e \<Rightarrow> example_named_layer)"

definition example_added :: layer_world where
  "example_added =
     (case store_step (Add [0]) example_layer of Inr w \<Rightarrow> w | Inl e \<Rightarrow> example_layer)"

definition example_overview :: layer_world where
  "example_overview =
     SegmentsLayer (example_view\<lparr>getName := ''overview''\<rparr>) example_heap [] []"

definition example_overview_added :: layer_world where
  "example_overview_added =
     (case store_step (Add [0]) example_overview of Inr w \<Rightarrow> w | Inl e \<Rightarrow> example_overview)"

section \<open>Properties\<close>

subsection \<open>Coordinate conversion\<close>

text \<open>
  C10. The conversion helpers return the client coordinate minus the origin of the
  container's bounding box as it is when the helper is called: the result follows any
  change of the box between two calls, and the handler keeps no copy of the box among its
  fields. With the box at left 50, top 20, the client point (60, 30) converts to (10, 10).
\<close>

theorem getMousePos_container_relative:
  "getMousePosX (s\<lparr>containerPos := r\<rparr>) (Number cx) = Number (cx - left r) \<and>
   getMousePosY (s\<lparr>containerPos := r\<rparr>) (Number cy) = Number (cy - top r) \<and>
   getMousePosX (s\<lparr>containerPos := \<lparr>left = 50, top = 20\<rparr>\<rparr>) (Number 60) = Number 10 \<and>
   getMousePosY (s\<lparr>containerPos := \<lparr>left = 50, top = 20\<rparr>\<rparr>) (Number 30) = Number 10"
  by (simp add: getMousePosX_def getMousePosY_def js_minus_def)

subsection \<open>The drag handler\<close>

lemma set_fold_addEventListener:
  "set (fold (\<lambda>(t, l). addEventListener t l) rs ls) = set ls \<union> set rs"
  by (induction rs arbitrary: ls) (auto simp: addEventListener_def split: if_splits)

lemma fold_removeEventListener:
  "fold (\<lambda>(t, l). removeEventListener t l) rs ls = filter (\<lambda>p. p \<notin> set rs) ls"
proof (induction rs arbitrary: ls)
  case Nil
  then show ?case by simp
next
  case (Cons r rs)
  obtain t l where r: "r = (t, l)" by (cases r)
  have "filter (\<lambda>p. p \<notin> set rs) (removeAll (t, l) ls) = filter (\<lambda>p. p \<notin> set (r # rs)) ls"
    by (induction ls) (auto simp: r)
  with Cons show ?case by (simp add: r removeEventListener_def)
qed

lemma press_from_idle:
  "window_listeners s = [] \<Longrightarrow> mouseDown p s = Inr s1 \<Longrightarrow> window_listeners s1 = window_registrations"
  by (auto simp: mouseDown_def window_registrations_def addEventListener_def Let_def
      split: sum.splits prod.splits if_splits)

lemma delta_Number:
  "mouseDownClientX s = Number x0 \<Longrightarrow> mouseDownClientY s = Number y0 \<Longrightarrow>
   delta s (Number x) (Number y) = Number (sqrt ((x - x0)\<^sup>2 + (y - y0)\<^sup>2))"
proof -
  have "\<not> (x - x0)\<^sup>2 + (y - y0)\<^sup>2 < 0"
    by (simp add: not_less)
  then show "mouseDownClientX s = Number x0 \<Longrightarrow> mouseDownClientY s = Number y0 \<Longrightarrow> ?thesis"
    by (simp add: delta_def Math_sqrt_def js_plus_def Math_pow_def js_minus_def)
qed

lemma mouseMove_Number:
  assumes "mouseMove_client m = Inr (Number x, Number y)"
    and "mouseDownClientX s = Number x0" and "mouseDownClientY s = Number y0"
  shows "mouseMove m s =
    Inr (s\<lparr>dragging := dragging s \<or> 3 < sqrt ((x - x0)\<^sup>2 + (y - y0)\<^sup>2),
           calls := calls s @ (if onMouseMove s
              then [OnMouseMove (type m) (Number (x - left (containerPos s)))
                      (Number (y - top (containerPos s))) m] else [])\<rparr>)"
  using assms
  by (simp add: mouseMove_def delta_Number js_gt_def getMousePosX_def getMousePosY_def js_minus_def)

lemma listeners_for_move:
  assumes "t = ''mousemove'' \<or> t = ''touchmove''"
  shows "map snd (filter (\<lambda>p. fst p = t) window_registrations) = [mouseMove_l]"
  using assms by (elim disjE) (simp_all add: window_registrations_def)

lemma listeners_for_release:
  assumes "t = ''mouseup'' \<or> t = ''touchend'' \<or> t = ''blur''"
  shows "map snd (filter (\<lambda>p. fst p = t) window_registrations) = [mouseUp_l]"
  using assms by (elim disjE) (simp_all add: window_registrations_def)

lemma move_registered:
  assumes "t = ''mousemove'' \<or> t = ''touchmove''"
  shows "(t, mouseMove_l) \<in> set window_registrations"
  using assms by (elim disjE) (simp_all add: window_registrations_def)

lemma release_registered:
  assumes "t = ''mouseup'' \<or> t = ''touchend'' \<or> t = ''blur''"
  shows "(t, mouseUp_l) \<in> set window_registrations"
  using assms by (elim disjE) (simp_all add: window_registrations_def)

lemma window_dispatch_move:
  assumes "window_listeners s = window_registrations"
    and "type m = ''mousemove'' \<or> type m = ''touchmove''"
  shows "window_dispatch m s = mouseMove m s"
  by (cases "mouseMove m s")
     (simp_all add: window_dispatch_def assms(1) listeners_for_move[OF assms(2)]
        move_registered[OF assms(2)])

lemma window_dispatch_release:
  assumes "window_listeners s = window_registrations"
    and "type e = ''mouseup'' \<or> type e = ''touchend'' \<or> type e = ''blur''"
  shows "window_dispatch e s = mouseUp e s"
  by (cases "mouseUp e s")
     (simp_all add: window_dispatch_def assms(1) listeners_for_release[OF assms(2)]
        release_registered[OF assms(2)])

lemma window_dispatch_idle:
  "window_listeners s = [] \<Longrightarrow> window_dispatch m s = Inr s"
  by (simp add: window_dispatch_def)

lemma moves_in_session:
  assumes "window_listeners s = window_registrations"
    and "mouseDownClientX s = Number x0" and "mouseDownClientY s = Number y0"
    and "\<forall>m\<in>set ms. (type m = ''mousemove'' \<or> type m = ''touchmove'') \<and>
           mouseMove_client m = Inr (Number (fst (pt m)), Number (snd (pt m)))"
  shows "\<exists>s2. window_dispatches ms s = Inr s2 \<and>
           dragging s2 = (dragging s \<or> (\<exists>m\<in>set ms. 3 < sqrt ((fst (pt m) - x0)\<^sup>2 + (snd (pt m) - y0)\<^sup>2))) \<and>
           calls s2 = calls s @ (if onMouseMove s then
               map (\<lambda>m. OnMouseMove (type m) (Number (fst (pt m) - left (containerPos s)))
                          (Number (snd (pt m) - top (containerPos s))) m) ms else [])"
  using assms
proof (induction ms arbitrary: s)
  case Nil
  then show ?case by simp
next
  case (Cons m ms)
  let ?s1 = "s\<lparr>dragging := dragging s \<or> 3 < sqrt ((fst (pt m) - x0)\<^sup>2 + (snd (pt m) - y0)\<^sup>2),
           calls := calls s @ (if onMouseMove s
              then [OnMouseMove (type m) (Number (fst (pt m) - left (containerPos s)))
                      (Number (snd (pt m) - top (containerPos s))) m] else [])\<rparr>"
  have m: "type m = ''mousemove'' \<or> type m = ''touchmove''"
    "mouseMove_client m = Inr (Number (fst (pt m)), Number (snd (pt m)))"
    using Cons.prems(4) by simp_all
  have step: "window_dispatch m s = Inr ?s1"
    using window_dispatch_move[OF Cons.prems(1) m(1)]
      mouseMove_Number[OF m(2) Cons.prems(2) Cons.prems(3)] by simp
  have "\<exists>s2. window_dispatches ms ?s1 = Inr s2 \<and>
           dragging s2 = (dragging ?s1 \<or> (\<exists>m\<in>set ms. 3 < sqrt ((fst (pt m) - x0)\<^sup>2 + (snd (pt m) - y0)\<^sup>2))) \<and>
           calls s2 = calls ?s1 @ (if onMouseMove ?s1 then
               map (\<lambda>m. OnMouseMove (type m) (Number (fst (pt m) - left (containerPos ?s1)))
                          (Number (snd (pt m) - top (containerPos ?s1))) m) ms else [])"
    using Cons.prems by (intro Cons.IH) simp_all
  then obtain s2 where s2: "window_dispatches ms ?s1 = Inr s2"
    "dragging s2 = (dragging ?s1 \<or> (\<exists>m\<in>set ms. 3 < sqrt ((fst (pt m) - x0)\<^sup>2 + (snd (pt m) - y0)\<^sup>2)))"
    "calls s2 = calls ?s1 @ (if onMouseMove ?s1 then
               map (\<lambda>m. OnMouseMove (type m) (Number (fst (pt m) - left (containerPos ?s1)))
                          (Number (snd (pt m) - top (containerPos ?s1))) m) ms else [])"
    by blast
  have "window_dispatches (m # ms) s = Inr s2"
    using step s2(1) by simp
  moreover have "dragging s2 = (dragging s \<or> (\<exists>m\<in>set (m # ms). 3 < sqrt ((fst (pt m) - x0)\<^sup>2 + (snd (pt m) - y0)\<^sup>2)))"
    using s2(2) by auto
  moreover have "calls s2 = calls s @ (if onMouseMove s then
               map (\<lambda>m. OnMouseMove (type m) (Number (fst (pt m) - left (containerPos s)))
                          (Number (snd (pt m) - top (containerPos s))) m) (m # ms) else [])"
    using s2(3) by simp
  ultimately show ?case by blast
qed

lemma mouseDown_frame:
  "mouseDown p s = Inr s1 \<Longrightarrow>
     dragging s1 = dragging s \<and> onMouseMove s1 = onMouseMove s \<and> containerPos s1 = containerPos s"
  by (auto simp: mouseDown_def Let_def split: sum.splits prod.splits if_splits)

lemma move_point:
  assumes "(type m = ''mousemove'' \<and> clientX m = Number (fst q) \<and> clientY m = Number (snd q)) \<or>
           (type m = ''touchmove'' \<and>
              (\<exists>t ts. changedTouches m = t # ts \<and> q = (of_int \<lfloor>fst t\<rfloor>, of_int \<lfloor>snd t\<rfloor>)))"
  shows "(type m = ''mousemove'' \<or> type m = ''touchmove'') \<and>
         mouseMove_client m = Inr (Number (fst q), Number (snd q))"
  using assms
proof (elim disjE conjE exE)
  assume "type m = ''mousemove''" "clientX m = Number (fst q)" "clientY m = Number (snd q)"
  then show ?thesis by (simp add: mouseMove_client_def)
next
  fix t ts
  assume "type m = ''touchmove''" "changedTouches m = t # ts"
    "q = (of_int \<lfloor>fst t\<rfloor>, of_int \<lfloor>snd t\<rfloor>)"
  then show ?thesis by (simp add: mouseMove_client_def Math_floor_def)
qed

lemma press_origin:
  assumes "(ktype p \<noteq> ''touchstart'' \<and> clientX (evt p) = Number x0 \<and> clientY (evt p) = Number y0) \<or>
           (ktype p = ''touchstart'' \<and>
              (\<exists>t ts. touches (evt p) = t # ts \<and> x0 = of_int \<lfloor>fst t\<rfloor> \<and> y0 = of_int \<lfloor>snd t\<rfloor>))"
  shows "\<exists>s1. mouseDown p s = Inr s1 \<and> mouseDownClientX s1 = Number x0 \<and>
              mouseDownClientY s1 = Number y0"
proof -
  from assms have "mouseDown_client p = Inr (Number x0, Number y0)"
  proof (elim disjE conjE exE)
    assume "ktype p \<noteq> ''touchstart''" "clientX (evt p) = Number x0" "clientY (evt p) = Number y0"
    then show ?thesis by (simp add: mouseDown_client_def)
  next
    fix t ts
    assume "ktype p = ''touchstart''" "touches (evt p) = t # ts"
      "x0 = of_int \<lfloor>fst t\<rfloor>" "y0 = of_int \<lfloor>snd t\<rfloor>"
    then show ?thesis by (simp add: mouseDown_client_def Math_floor_def)
  qed
  then show ?thesis
    by (simp add: mouseDown_def Let_def)
qed

text \<open>
  C6. A drag session starts from an idle handler (not dragging, no window listener) with
  a press: a mouse press at the client point \<open>(x0, y0)\<close>, or a touchstart whose first
  touch point floors to \<open>(x0, y0)\<close>. The window then delivers any sequence of move
  events, each a mousemove or a touchmove; the point \<open>pt m\<close> of a mousemove is its
  client point, that of a touchmove is its first changed touch, floored. The delivery
  succeeds; \<^verbatim>\<open>isDragging()\<close> is true afterwards exactly when one of the moves lay
  further than 3 from the origin in Euclidean distance (so it is false until such a move
  and stays true after it); and every move was forwarded to \<^verbatim>\<open>onMouseMove\<close> with
  its event type and its point relative to the container, whatever its distance.
\<close>

theorem drag_threshold:
  assumes "\<not> isDragging s0" and "window_listeners s0 = []"
    and "(ktype p \<noteq> ''touchstart'' \<and> clientX (evt p) = Number x0 \<and> clientY (evt p) = Number y0) \<or>
         (ktype p = ''touchstart'' \<and>
            (\<exists>t ts. touches (evt p) = t # ts \<and> x0 = of_int \<lfloor>fst t\<rfloor> \<and> y0 = of_int \<lfloor>snd t\<rfloor>))"
    and "\<forall>m\<in>set ms.
           (type m = ''mousemove'' \<and> clientX m = Number (fst (pt m)) \<and>
              clientY m = Number (snd (pt m))) \<or>
           (type m = ''touchmove'' \<and>
              (\<exists>t ts. changedTouches m = t # ts \<and>
                 pt m = (of_int \<lfloor>fst t\<rfloor>, of_int \<lfloor>snd t\<rfloor>)))"
  shows "\<exists>s1 s2. mouseDown p s0 = Inr s1 \<and> window_dispatches ms s1 = Inr s2 \<and>
           isDragging s2 = (\<exists>m\<in>set ms. 3 < sqrt ((fst (pt m) - x0)\<^sup>2 + (snd (pt m) - y0)\<^sup>2)) \<and>
           calls s2 = calls s1 @ (if onMouseMove s0 then
               map (\<lambda>m. OnMouseMove (type m) (Number (fst (pt m) - left (containerPos s0)))
                          (Number (snd (pt m) - top (containerPos s0))) m) ms else [])"
proof -
  from press_origin[OF assms(3), of s0] obtain s1 where s1: "mouseDown p s0 = Inr s1"
    and o: "mouseDownClientX s1 = Number x0" "mouseDownClientY s1 = Number y0"
    by blast
  have wl: "window_listeners s1 = window_registrations"
    using assms(2) s1 by (rule press_from_idle)
  have fr: "dragging s1 = dragging s0" "onMouseMove s1 = onMouseMove s0" "containerPos s1 = containerPos s0"
    using mouseDown_frame[OF s1] by simp_all
  have mv: "\<forall>m\<in>set ms. (type m = ''mousemove'' \<or> type m = ''touchmove'') \<and>
           mouseMove_client m = Inr (Number (fst (pt m)), Number (snd (pt m)))"
  proof
    fix m assume "m \<in> set ms"
    with assms(4) show "(type m = ''mousemove'' \<or> type m = ''touchmove'') \<and>
           mouseMove_client m = Inr (Number (fst (pt m)), Number (snd (pt m)))"
      by (intro move_point) blast
  qed
  from moves_in_session[OF wl o mv]
  obtain s2 where "window_dispatches ms s1 = Inr s2"
    and "dragging s2 = (dragging s1 \<or> (\<exists>m\<in>set ms. 3 < sqrt ((fst (pt m) - x0)\<^sup>2 + (snd (pt m) - y0)\<^sup>2)))"
    and "calls s2 = calls s1 @ (if onMouseMove s1 then
               map (\<lambda>m. OnMouseMove (type m) (Number (fst (pt m) - left (containerPos s1)))
                          (Number (snd (pt m) - top (containerPos s1))) m) ms else [])"
    by blast
  with fr assms(1) s1 show ?thesis
    by (intro exI[of _ s1] exI[of _ s2]) (simp add: isDragging_def)
qed

lemma three_less_sqrt: "(3 < sqrt x) = (9 < x)"
  using real_sqrt_less_iff[of 9 x] by simp

lemma example_pressed_eq:
  "mouseDown example_press example_handler = Inr example_pressed"
  by (simp add: example_pressed_def mouseDown_def example_press_def example_handler_def
      MouseDragHandler_def mouseDown_client_def MouseEvent_def Let_def)

lemma example_pressed_fields:
  "mouseDownClientX example_pressed = Number 100"
  "mouseDownClientY example_pressed = Number 100"
  "window_listeners example_pressed = window_registrations"
  "calls example_pressed = [OnMouseDown (Number 50) (Number 80) example_press]"
  "containerPos example_pressed = \<lparr>left = 50, top = 20\<rparr>"
  "onMouseMove example_pressed" "onMouseUp example_pressed" "\<not> dragging example_pressed"
  by (simp_all add: example_pressed_def mouseDown_def example_press_def example_handler_def
      MouseDragHandler_def mouseDown_client_def MouseEvent_def getMousePosX_def getMousePosY_def
      js_minus_def window_registrations_def addEventListener_def Let_def)

lemma example_handler_fields:
  "\<not> isDragging example_handler" "window_listeners example_handler = []"
  "onMouseMove example_handler" "containerPos example_handler = \<lparr>left = 50, top = 20\<rparr>"
  by (simp_all add: example_handler_def MouseDragHandler_def isDragging_def)

text \<open>
  The session of the claim, with a touch move in between: origin (100, 100), container at
  (50, 20). After the move to (102, 101) the handler is not dragging; a touchmove at
  (103.9, 100.9) is floored to (103, 100), at distance 3, and leaves it so; after the move
  to (104, 100) it is dragging. The three moves were forwarded as (52, 81), (53, 80) and
  (54, 80).
\<close>

theorem drag_threshold_witness:
  "\<exists>s1 s2 s3 s4.
     mouseDown example_press example_handler = Inr s1 \<and>
     window_dispatches [MouseEvent ''mousemove'' 102 101] s1 = Inr s2 \<and> \<not> isDragging s2 \<and>
     window_dispatches [MouseEvent ''mousemove'' 102 101, example_touchmove] s1 = Inr s3 \<and>
     \<not> isDragging s3 \<and>
     window_dispatches [MouseEvent ''mousemove'' 102 101, example_touchmove,
                        MouseEvent ''mousemove'' 104 100] s1 = Inr s4 \<and>
     isDragging s4 \<and>
     calls s4 = calls s1 @
       [OnMouseMove ''mousemove'' (Number 52) (Number 81) (MouseEvent ''mousemove'' 102 101),
        OnMouseMove ''touchmove'' (Number 53) (Number 80) example_touchmove,
        OnMouseMove ''mousemove'' (Number 54) (Number 80) (MouseEvent ''mousemove'' 104 100)]"
proof -
  define m1 m2 m3 where "m1 = MouseEvent ''mousemove'' 102 101" and "m2 = example_touchmove"
    and "m3 = MouseEvent ''mousemove'' 104 100"
  define pt where "pt = (\<lambda>m. if m = m3 then (104::real, 100::real)
                 else if m = m2 then (103, 100) else (102, 101))"
  have ne: "m1 \<noteq> m3" "m1 \<noteq> m2" "m2 \<noteq> m3"
    by (simp_all add: m1_def m2_def m3_def MouseEvent_def TouchEvent_def example_touchmove_def)
  have pt: "pt m1 = (102, 101)" "pt m2 = (103, 100)" "pt m3 = (104, 100)"
    using ne by (simp_all add: pt_def)
  have p: "(ktype example_press \<noteq> ''touchstart'' \<and> clientX (evt example_press) = Number 100 \<and>
            clientY (evt example_press) = Number 100) \<or>
           (ktype example_press = ''touchstart'' \<and>
            (\<exists>t ts. touches (evt example_press) = t # ts \<and> (100::real) = of_int \<lfloor>fst t\<rfloor> \<and>
                     (100::real) = of_int \<lfloor>snd t\<rfloor>))"
    by (simp add: example_press_def MouseEvent_def)
  have f1: "type m1 = ''mousemove''" "clientX m1 = Number 102" "clientY m1 = Number 101"
    by (simp_all add: m1_def MouseEvent_def)
  have f3: "type m3 = ''mousemove''" "clientX m3 = Number 104" "clientY m3 = Number 100"
    by (simp_all add: m3_def MouseEvent_def)
  have f2: "type m2 = ''touchmove''" "changedTouches m2 = [(1039 / 10, 1009 / 10)]"
    by (simp_all add: m2_def example_touchmove_def TouchEvent_def)
  have fl: "\<lfloor>1039 / 10 :: real\<rfloor> = 103" "\<lfloor>1009 / 10 :: real\<rfloor> = 100"
    by simp_all
  have q1: "(type m1 = ''mousemove'' \<and> clientX m1 = Number (fst (pt m1)) \<and>
              clientY m1 = Number (snd (pt m1))) \<or>
           (type m1 = ''touchmove'' \<and>
              (\<exists>t ts. changedTouches m1 = t # ts \<and>
                 pt m1 = (of_int \<lfloor>fst t\<rfloor>, of_int \<lfloor>snd t\<rfloor>)))"
    by (rule disjI1) (simp add: f1 pt)
  have q3: "(type m3 = ''mousemove'' \<and> clientX m3 = Number (fst (pt m3)) \<and>
              clientY m3 = Number (snd (pt m3))) \<or>
           (type m3 = ''touchmove'' \<and>
              (\<exists>t ts. changedTouches m3 = t # ts \<and>
                 pt m3 = (of_int \<lfloor>fst t\<rfloor>, of_int \<lfloor>snd t\<rfloor>)))"
    by (rule disjI1) (simp add: f3 pt)
  have "changedTouches m2 = (1039 / 10, 1009 / 10) # [] \<and>
        pt m2 = (of_int \<lfloor>fst (1039 / 10 :: real, 1009 / 10 :: real)\<rfloor>,
                 of_int \<lfloor>snd (1039 / 10 :: real, 1009 / 10 :: real)\<rfloor>)"
    by (simp add: f2 pt fl)
  then have q2: "(type m2 = ''mousemove'' \<and> clientX m2 = Number (fst (pt m2)) \<and>
              clientY m2 = Number (snd (pt m2))) \<or>
           (type m2 = ''touchmove'' \<and>
              (\<exists>t ts. changedTouches m2 = t # ts \<and>
                 pt m2 = (of_int \<lfloor>fst t\<rfloor>, of_int \<lfloor>snd t\<rfloor>)))"
    using f2(1) by blast
  have a: "\<forall>m\<in>set [m1].
           (type m = ''mousemove'' \<and> clientX m = Number (fst (pt m)) \<and>
              clientY m = Number (snd (pt m))) \<or>
           (type m = ''touchmove'' \<and>
              (\<exists>t ts. changedTouches m = t # ts \<and>
                 pt m = (of_int \<lfloor>fst t\<rfloor>, of_int \<lfloor>snd t\<rfloor>)))"
    using q1 by simp
  have b: "\<forall>m\<in>set [m1, m2].
           (type m = ''mousemove'' \<and> clientX m = Number (fst (pt m)) \<and>
              clientY m = Number (snd (pt m))) \<or>
           (type m = ''touchmove'' \<and>
              (\<exists>t ts. changedTouches m = t # ts \<and>
                 pt m = (of_int \<lfloor>fst t\<rfloor>, of_int \<lfloor>snd t\<rfloor>)))"
    using q1 q2 by simp
  have c: "\<forall>m\<in>set [m1, m2, m3].
           (type m = ''mousemove'' \<and> clientX m = Number (fst (pt m)) \<and>
              clientY m = Number (snd (pt m))) \<or>
           (type m = ''touchmove'' \<and>
              (\<exists>t ts. changedTouches m = t # ts \<and>
                 pt m = (of_int \<lfloor>fst t\<rfloor>, of_int \<lfloor>snd t\<rfloor>)))"
    using q1 q2 q3 by simp
  have d1: "(\<exists>m\<in>set [m1]. 3 < sqrt ((fst (pt m) - 100)\<^sup>2 + (snd (pt m) - 100)\<^sup>2)) = False"
    by (simp add: pt three_less_sqrt)
  have d2: "(\<exists>m\<in>set [m1, m2]. 3 < sqrt ((fst (pt m) - 100)\<^sup>2 + (snd (pt m) - 100)\<^sup>2)) = False"
    by (simp add: pt three_less_sqrt)
  have d3: "(\<exists>m\<in>set [m1, m2, m3]. 3 < sqrt ((fst (pt m) - 100)\<^sup>2 + (snd (pt m) - 100)\<^sup>2)) = True"
    by (simp add: pt three_less_sqrt)
  have cl: "map (\<lambda>m. OnMouseMove (type m) (Number (fst (pt m) - left (containerPos example_handler)))
                          (Number (snd (pt m) - top (containerPos example_handler))) m) [m1, m2, m3] =
       [OnMouseMove ''mousemove'' (Number 52) (Number 81) m1,
        OnMouseMove ''touchmove'' (Number 53) (Number 80) m2,
        OnMouseMove ''mousemove'' (Number 54) (Number 80) m3]"
    by (simp add: pt f1 f2 f3 example_handler_fields)
  from drag_threshold[OF example_handler_fields(1,2) p a] example_pressed_eq
  obtain s2 where s2: "window_dispatches [m1] example_pressed = Inr s2" "\<not> isDragging s2"
    unfolding d1 by auto
  from drag_threshold[OF example_handler_fields(1,2) p b] example_pressed_eq
  obtain s3 where s3: "window_dispatches [m1, m2] example_pressed = Inr s3" "\<not> isDragging s3"
    unfolding d2 by auto
  from drag_threshold[OF example_handler_fields(1,2) p c] example_pressed_eq
  obtain s4 where s4: "window_dispatches [m1, m2, m3] example_pressed = Inr s4" "isDragging s4"
    "calls s4 = calls example_pressed @
       [OnMouseMove ''mousemove'' (Number 52) (Number 81) m1,
        OnMouseMove ''touchmove'' (Number 53) (Number 80) m2,
        OnMouseMove ''mousemove'' (Number 54) (Number 80) m3]"
    unfolding d3 cl using example_handler_fields(3) by auto
  from example_pressed_eq s2 s3 s4 show ?thesis
    unfolding m1_def m2_def m3_def by blast
qed

lemma mouseUp_client_frame:
  "mouseUp_client e s = Inr (cx, cy, s0) \<Longrightarrow>
     window_listeners s0 = window_listeners s \<and> dragging s0 = dragging s \<and>
     onMouseUp s0 = onMouseUp s \<and> containerPos s0 = containerPos s \<and>
     calls s0 = calls s @ (if type e = ''touchend'' \<and> cancelable e then [PreventDefault e] else []) \<and>
     (if type e = ''touchend''
      then \<exists>t ts. changedTouches e = t # ts \<and> cx = Number (of_int \<lfloor>fst t\<rfloor>) \<and>
                   cy = Number (of_int \<lfloor>snd t\<rfloor>)
      else cx = clientX e \<and> cy = clientY e)"
  by (cases "changedTouches e")
     (auto simp: mouseUp_client_def Math_floor_def split: if_splits)

lemma unlisten_empty:
  "set ls \<subseteq> set window_registrations \<Longrightarrow>
   fold (\<lambda>(t, l). removeEventListener t l) window_registrations ls = []"
  by (auto simp: fold_removeEventListener filter_empty_conv)

text \<open>
  A release (\<^verbatim>\<open>_mouseUp\<close>, the listener of mouseup, touchend and blur) that returns
  has called \<^verbatim>\<open>onMouseUp\<close> with the conversion of the event's client point, removed
  the window listeners and reset the flag: afterwards \<^verbatim>\<open>isDragging()\<close> is false, the
  window holds no listener of the handler, and the delivery of any event to the window
  calls nothing and changes nothing. The client point is the floored first changed touch
  of a touchend, and \<^verbatim>\<open>clientX\<close>, \<^verbatim>\<open>clientY\<close> of any other event.
\<close>

lemma mouseUp_leaves_idle:
  assumes "mouseUp e s = Inr s'" and "set (window_listeners s) \<subseteq> set window_registrations"
  shows "\<exists>cx cy s0.
      mouseUp_client e s = Inr (cx, cy, s0) \<and>
      (if type e = ''touchend''
       then \<exists>t ts. changedTouches e = t # ts \<and> cx = Number (of_int \<lfloor>fst t\<rfloor>) \<and>
                    cy = Number (of_int \<lfloor>snd t\<rfloor>)
       else cx = clientX e \<and> cy = clientY e) \<and>
      calls (mouseUp_notify e cx cy s0) = calls s0 @
         (if onMouseUp s then [OnMouseUp (getMousePosX s cx) (getMousePosY s cy) e] else []) \<and>
      window_listeners (mouseUp_notify e cx cy s0) = window_listeners s \<and>
      isDragging (mouseUp_notify e cx cy s0) = isDragging s \<and>
      window_listeners (mouseUp_unlisten (mouseUp_notify e cx cy s0)) = [] \<and>
      isDragging (mouseUp_unlisten (mouseUp_notify e cx cy s0)) = isDragging s \<and>
      s' = (mouseUp_unlisten (mouseUp_notify e cx cy s0))\<lparr>dragging := False\<rparr> \<and>
      calls s' = calls (mouseUp_notify e cx cy s0) \<and>
      \<not> isDragging s' \<and> window_listeners s' = [] \<and>
      (\<forall>m. window_dispatch m s' = Inr s')"
proof -
  from assms(1) obtain cx cy s0 where c: "mouseUp_client e s = Inr (cx, cy, s0)"
    and s': "s' = (mouseUp_unlisten (mouseUp_notify e cx cy s0))\<lparr>dragging := False\<rparr>"
    by (auto simp: mouseUp_def Let_def split: sum.splits)
  note fr = mouseUp_client_frame[OF c]
  let ?s1 = "mouseUp_notify e cx cy s0"
  have n: "calls ?s1 = calls s0 @
         (if onMouseUp s then [OnMouseUp (getMousePosX s cx) (getMousePosY s cy) e] else [])"
    "window_listeners ?s1 = window_listeners s" "isDragging ?s1 = isDragging s"
    using fr by (simp_all add: mouseUp_notify_def Let_def getMousePosX_def getMousePosY_def isDragging_def)
  have u: "window_listeners (mouseUp_unlisten ?s1) = []"
    "isDragging (mouseUp_unlisten ?s1) = isDragging s" "calls (mouseUp_unlisten ?s1) = calls ?s1"
    using n(2,3) assms(2) by (simp_all add: mouseUp_unlisten_def unlisten_empty isDragging_def)
  have f: "\<not> isDragging s'" "window_listeners s' = []" "calls s' = calls ?s1"
    using u by (simp_all add: s' isDragging_def)
  have d: "\<forall>m. window_dispatch m s' = Inr s'"
    using f(2) by (simp add: window_dispatch_idle)
  from c fr n u s' f d show ?thesis by blast
qed

lemma example_dragging_eq:
  "window_dispatch (MouseEvent ''mousemove'' 104 100) example_pressed = Inr example_dragging"
proof -
  have t: "type (MouseEvent ''mousemove'' 104 100) = ''mousemove'' \<or>
           type (MouseEvent ''mousemove'' 104 100) = ''touchmove''"
    by (simp add: MouseEvent_def)
  have c: "mouseMove_client (MouseEvent ''mousemove'' 104 100) = Inr (Number 104, Number 100)"
    by (simp add: mouseMove_client_def MouseEvent_def)
  show ?thesis
    unfolding example_dragging_def
      window_dispatch_move[OF example_pressed_fields(3) t]
      mouseMove_Number[OF c example_pressed_fields(1,2)]
    by simp
qed

lemma example_dragging_fields:
  "isDragging example_dragging"
  "window_listeners example_dragging = window_registrations"
  "onMouseUp example_dragging"
  "calls example_dragging =
     [OnMouseDown (Number 50) (Number 80) example_press,
      OnMouseMove ''mousemove'' (Number 54) (Number 80) (MouseEvent ''mousemove'' 104 100)]"
proof -
  have t: "type (MouseEvent ''mousemove'' 104 100) = ''mousemove'' \<or>
           type (MouseEvent ''mousemove'' 104 100) = ''touchmove''"
    by (simp add: MouseEvent_def)
  have c: "mouseMove_client (MouseEvent ''mousemove'' 104 100) = Inr (Number 104, Number 100)"
    by (simp add: mouseMove_client_def MouseEvent_def)
  have e: "example_dragging =
     example_pressed\<lparr>dragging := dragging example_pressed \<or> 3 < sqrt ((104 - 100)\<^sup>2 + (100 - 100)\<^sup>2),
           calls := calls example_pressed @ (if onMouseMove example_pressed
              then [OnMouseMove (type (MouseEvent ''mousemove'' 104 100))
                      (Number (104 - left (containerPos example_pressed)))
                      (Number (100 - top (containerPos example_pressed)))
                      (MouseEvent ''mousemove'' 104 100)] else [])\<rparr>"
    unfolding example_dragging_def
      window_dispatch_move[OF example_pressed_fields(3) t]
      mouseMove_Number[OF c example_pressed_fields(1,2)]
    by simp
  show "isDragging example_dragging"
    unfolding e by (simp add: isDragging_def three_less_sqrt)
  show "window_listeners example_dragging = window_registrations"
    unfolding e by (simp add: example_pressed_fields)
  show "onMouseUp example_dragging"
    unfolding e by (simp add: example_pressed_fields)
  show "calls example_dragging =
     [OnMouseDown (Number 50) (Number 80) example_press,
      OnMouseMove ''mousemove'' (Number 54) (Number 80) (MouseEvent ''mousemove'' 104 100)]"
    unfolding e by (simp add: example_pressed_fields MouseEvent_def)
qed

text \<open>
  C7. A press at (100, 100) and a move to (104, 100) start a drag; the window then loses
  the focus. The blur event is delivered to \<^verbatim>\<open>_mouseUp\<close>, which reads
  \<^verbatim>\<open>event.clientX\<close> and \<^verbatim>\<open>event.clientY\<close>; a focus event has neither, so
  \<^verbatim>\<open>onMouseUp\<close> is called with \<^verbatim>\<open>NaN\<close> for both coordinates, not with
  container-relative coordinates. The listeners are removed and the flag is reset as on any
  release.
\<close>

theorem blur_release_passes_NaN:
  "mouseDown example_press example_handler = Inr example_pressed \<and>
   window_dispatch (MouseEvent ''mousemove'' 104 100) example_pressed = Inr example_dragging \<and>
   isDragging example_dragging \<and>
   (\<exists>s'. window_dispatch (FocusEvent ''blur'') example_dragging = Inr s' \<and>
      calls s' = calls example_dragging @ [OnMouseUp NaN NaN (FocusEvent ''blur'')] \<and>
      \<not> isDragging s' \<and> window_listeners s' = [])"
proof -
  let ?b = "FocusEvent ''blur''"
  have t: "type ?b = ''mouseup'' \<or> type ?b = ''touchend'' \<or> type ?b = ''blur''"
    by (simp add: FocusEvent_def)
  have d: "window_dispatch ?b example_dragging = mouseUp ?b example_dragging"
    using example_dragging_fields(2) t by (rule window_dispatch_release)
  have c: "mouseUp_client ?b example_dragging = Inr (Undefined, Undefined, example_dragging)"
    by (simp add: mouseUp_client_def FocusEvent_def)
  have n: "calls (mouseUp_notify ?b Undefined Undefined example_dragging) =
           calls example_dragging @ [OnMouseUp NaN NaN ?b]"
    by (simp add: mouseUp_notify_def Let_def example_dragging_fields getMousePosX_def
        getMousePosY_def js_minus_def)
  have w: "window_listeners (mouseUp_notify ?b Undefined Undefined example_dragging) =
           window_registrations"
    by (simp add: mouseUp_notify_def Let_def example_dragging_fields)
  let ?s = "(mouseUp_unlisten (mouseUp_notify ?b Undefined Undefined example_dragging))\<lparr>dragging := False\<rparr>"
  have u: "mouseUp ?b example_dragging = Inr ?s"
    by (simp add: mouseUp_def c Let_def)
  have "calls ?s = calls example_dragging @ [OnMouseUp NaN NaN ?b]"
    using n by (simp add: mouseUp_unlisten_def)
  moreover have "\<not> isDragging ?s"
    by (simp add: isDragging_def)
  moreover have "window_listeners ?s = []"
    using w by (simp add: mouseUp_unlisten_def unlisten_empty)
  ultimately show ?thesis
    using example_pressed_eq example_dragging_eq example_dragging_fields(1) d u by simp
qed

lemma mouseDown_registers:
  "mouseDown p s = Inr s1 \<Longrightarrow> set (window_listeners s1) = set (window_listeners s) \<union> set window_registrations"
  by (auto simp: mouseDown_def Let_def set_fold_addEventListener split: sum.splits prod.splits if_splits)

lemma mouseMove_listeners:
  "mouseMove m s = Inr s1 \<Longrightarrow> window_listeners s1 = window_listeners s"
  by (auto simp: mouseMove_def Let_def split: sum.splits prod.splits if_splits)

lemma mouseUp_unregisters:
  "mouseUp e s = Inr s2 \<Longrightarrow> set (window_listeners s2) = set (window_listeners s) - set window_registrations"
proof -
  assume "mouseUp e s = Inr s2"
  then obtain cx cy s0 where c: "mouseUp_client e s = Inr (cx, cy, s0)"
    and s2: "s2 = (mouseUp_unlisten (mouseUp_notify e cx cy s0))\<lparr>dragging := False\<rparr>"
    by (auto simp: mouseUp_def Let_def split: sum.splits)
  have "window_listeners (mouseUp_notify e cx cy s0) = window_listeners s"
    using mouseUp_client_frame[OF c] by (simp add: mouseUp_notify_def Let_def)
  then show ?thesis
    by (auto simp: s2 mouseUp_unlisten_def fold_removeEventListener)
qed

lemma non_release_keeps_listeners:
  assumes "\<not> is_release op" and "apply_op op s = Inr s'"
  shows "set (window_listeners s) \<subseteq> set (window_listeners s')"
proof (cases op)
  case (Op_mouseDown p)
  with assms(2) show ?thesis using mouseDown_registers[of p s s'] by auto
next
  case (Op_mouseMove m)
  with assms(2) show ?thesis using mouseMove_listeners[of m s s'] by auto
next
  case (Op_mouseUp e)
  with assms(1) show ?thesis by simp
next
  case (Op_mouseWheel e)
  with assms(2) show ?thesis by (auto simp: mouseWheel_def)
next
  case (Op_contextMenu e)
  with assms(2) show ?thesis by (auto simp: contextMenu_def)
qed (use assms(2) in auto)

text \<open>
  C5, as amended. Every press registers the five window listeners; the delivery of a
  mouseup, touchend or blur event to a handler that holds them runs \<^verbatim>\<open>_mouseUp\<close>,
  and every \<^verbatim>\<open>_mouseUp\<close> that returns has removed all five; no other operation of
  the handler removes a window listener.
\<close>

theorem window_listeners_lifetime:
  "(mouseDown p s = Inr s1 \<longrightarrow> set window_registrations \<subseteq> set (window_listeners s1)) \<and>
   (window_listeners t = window_registrations \<and>
      (type e = ''mouseup'' \<or> type e = ''touchend'' \<or> type e = ''blur'') \<longrightarrow>
        window_dispatch e t = mouseUp e t) \<and>
   (mouseUp e t = Inr t2 \<longrightarrow> set (window_listeners t2) \<inter> set window_registrations = {}) \<and>
   (\<not> is_release op \<and> apply_op op u = Inr u3 \<longrightarrow>
        set (window_listeners u) \<subseteq> set (window_listeners u3))"
  using mouseDown_registers[of p s s1] window_dispatch_release[of t e]
    mouseUp_unregisters[of e t t2] non_release_keeps_listeners[of op u u3]
  by auto

text \<open>
  C5 as stated fails: the handler has no teardown operation. In the middle of a drag, no
  operation other than the delivery of a release event leaves the window without the
  listeners registered on the press.
\<close>

theorem no_teardown_operation:
  "\<not> (\<exists>op s'. \<not> is_release op \<and> apply_op op example_pressed = Inr s' \<and>
          set (window_listeners s') \<inter> set window_registrations = {})"
proof
  assume "\<exists>op s'. \<not> is_release op \<and> apply_op op example_pressed = Inr s' \<and>
          set (window_listeners s') \<inter> set window_registrations = {}"
  then obtain op s' where o: "\<not> is_release op" "apply_op op example_pressed = Inr s'"
    and e: "set (window_listeners s') \<inter> set window_registrations = {}"
    by blast
  from o have "set (window_listeners example_pressed) \<subseteq> set (window_listeners s')"
    by (rule non_release_keeps_listeners)
  with e show False
    by (auto simp: example_pressed_fields window_registrations_def)
qed

text \<open>
  A press, then a blur delivered to the window, and a wheel event in the middle of the
  drag.
\<close>

theorem window_listeners_lifetime_witness:
  "\<exists>s1 s2 s3.
     mouseDown example_press example_handler = Inr s1 \<and>
     set window_registrations \<subseteq> set (window_listeners s1) \<and>
     window_dispatch (FocusEvent ''blur'') s1 = mouseUp (FocusEvent ''blur'') s1 \<and>
     mouseUp (FocusEvent ''blur'') s1 = Inr s2 \<and>
     set (window_listeners s2) \<inter> set window_registrations = {} \<and>
     apply_op (Op_mouseWheel (MouseEvent ''wheel'' 100 100)) s1 = Inr s3 \<and>
     set (window_listeners s1) \<subseteq> set (window_listeners s3)"
proof -
  let ?b = "FocusEvent ''blur''" and ?w = "Op_mouseWheel (MouseEvent ''wheel'' 100 100)"
  obtain s2 where up: "mouseUp ?b example_pressed = Inr s2"
    by (cases "mouseUp ?b example_pressed")
       (simp_all add: mouseUp_def mouseUp_client_def FocusEvent_def)
  obtain s3 where w: "apply_op ?w example_pressed = Inr s3"
    by simp
  have t: "type ?b = ''blur''" by (simp add: FocusEvent_def)
  have r: "\<not> is_release ?w" by simp
  from window_listeners_lifetime[of example_press example_handler example_pressed
      example_pressed ?b s2 ?w example_pressed s3]
    example_pressed_eq example_pressed_fields(3) up w t r
  have "set window_registrations \<subseteq> set (window_listeners example_pressed) \<and>
     window_dispatch ?b example_pressed = mouseUp ?b example_pressed \<and>
     set (window_listeners s2) \<inter> set window_registrations = {} \<and>
     set (window_listeners example_pressed) \<subseteq> set (window_listeners s3)"
    by simp
  with example_pressed_eq up w show ?thesis by blast
qed

text \<open>
  C8. For a touchstart whose first touch point is at (10.7, 20.3), with the container at
  (50, 20), the recorded origin is the floored point (10, 20) and the X given to
  \<^verbatim>\<open>onMouseDown\<close> is derived from it, but the Y is computed from
  \<^verbatim>\<open>event.evt.clientY\<close>, which a touch event does not have: \<^verbatim>\<open>onMouseDown\<close>
  receives \<^verbatim>\<open>NaN\<close>.
\<close>

theorem touchstart_passes_NaN_as_Y:
  "\<exists>s. mouseDown example_touchstart example_handler = Inr s \<and>
       mouseDownClientX s = Number 10 \<and> mouseDownClientY s = Number 20 \<and>
       calls s = [OnMouseDown (Number (-40)) NaN example_touchstart]"
  by (simp add: mouseDown_def mouseDown_client_def example_touchstart_def example_handler_def
      MouseDragHandler_def TouchEvent_def Math_floor_def getMousePosX_def getMousePosY_def
      js_minus_def Let_def)

subsection \<open>The segments layer: the table of shapes\<close>

lemma consistent_iff:
  "consistent w =
    (distinct (map fst (segmentShapes w)) \<and>
     (\<forall>k sh. map_of (segmentShapes w) k = Some sh \<longrightarrow>
         getSegment sh \<in> set (segments w) \<and> seg_id (heap w (getSegment sh)) = k) \<and>
     distinct (map (\<lambda>r. seg_id (heap w r)) (segments w)))"
proof -
  have "distinct (map fst (segmentShapes w)) \<Longrightarrow>
     (\<forall>p\<in>set (segmentShapes w). getSegment (snd p) \<in> set (segments w) \<and>
           seg_id (heap w (getSegment (snd p))) = fst p) =
     (\<forall>k sh. map_of (segmentShapes w) k = Some sh \<longrightarrow>
         getSegment sh \<in> set (segments w) \<and> seg_id (heap w (getSegment sh)) = k)"
    by (simp add: map_of_eq_Some_iff) fastforce
  then show ?thesis
    by (auto simp: consistent_def list_all_iff)
qed

lemma proxies_dom: "proxies w = dom (map_of (segmentShapes w))"
  by (simp add: proxies_def dom_map_of_conv_image_fst)

lemma consistent_effects [simp]: "consistent (w\<lparr>effects := es\<rparr>) = consistent w"
  by (simp add: consistent_def)

lemma proxies_effects [simp]: "proxies (w\<lparr>effects := es\<rparr>) = proxies w"
  by (simp add: proxies_def)

subsection \<open>Reading the table\<close>

lemma get_property_cases:
  "get_property tbl k = shape_value sh \<longleftrightarrow> map_of tbl k = Some sh"
  "get_property tbl k = no_value \<longleftrightarrow> map_of tbl k = None \<and> k \<notin> set Object_prototype_names"
  "get_property tbl k = inherited_value \<longleftrightarrow> map_of tbl k = None \<and> k \<in> set Object_prototype_names"
  by (auto simp: get_property_def split: option.splits)

lemma proto_is_prototype_name: "''__proto__'' \<in> set Object_prototype_names"
  by (simp add: Object_prototype_names_def)

subsection \<open>Loops\<close>

lemma forEach_invariant:
  assumes "forEach f xs s = Inr s'" and "P s"
    and "\<And>x s s'. x \<in> set xs \<Longrightarrow> P s \<Longrightarrow> f x s = Inr s' \<Longrightarrow> P s'"
  shows "P s'"
  using assms
proof (induction xs arbitrary: s)
  case Nil
  then show ?case by simp
next
  case (Cons x xs)
  from Cons.prems(1) obtain s1 where s1: "f x s = Inr s1" "forEach f xs s1 = Inr s'"
    by (cases "f x s") simp_all
  have p: "P s1"
    using Cons.prems(3)[of x s s1] Cons.prems(2) s1(1) by simp
  have step: "\<And>y t t'. y \<in> set xs \<Longrightarrow> P t \<Longrightarrow> f y t = Inr t' \<Longrightarrow> P t'"
    by (rule Cons.prems(3)) simp_all
  from Cons.IH[OF s1(2) p step] show ?case .
qed

lemma forEach_returns:
  assumes "Q s"
    and "\<And>x s. x \<in> set xs \<Longrightarrow> Q s \<Longrightarrow> \<exists>s'. f x s = Inr s' \<and> Q s'"
  shows "\<exists>s'. forEach f xs s = Inr s' \<and> Q s'"
  using assms
proof (induction xs arbitrary: s)
  case Nil
  then show ?case by simp
next
  case (Cons x xs)
  from Cons.prems(2)[of x s] Cons.prems(1) obtain s1 where s1: "f x s = Inr s1" "Q s1"
    by auto
  have step: "\<And>y t. y \<in> set xs \<Longrightarrow> Q t \<Longrightarrow> \<exists>t'. f y t = Inr t' \<and> Q t'"
    by (rule Cons.prems(2)) simp_all
  from Cons.IH[OF s1(2) step] obtain s' where "forEach f xs s1 = Inr s'" "Q s'"
    by auto
  with s1(1) show ?case by simp
qed

subsection \<open>addSegmentShape\<close>

lemma addSegmentShape_Inr:
  assumes "addSegmentShape r w = Inr (sh, w')"
  shows "heap w' = heap w" "segments w' = segments w" "view w' = view w"
    "subscriptions w' = subscriptions w" "getSegment sh = r"
    "segmentShapes w' = AList.update (seg_id (heap w r)) sh (segmentShapes w)"
    "seg_id (heap w r) \<noteq> ''__proto__''"
  using assms
  by (auto simp: addSegmentShape_def createSegmentShape_def set_property_def Let_def
      split: if_splits)

lemma addSegmentShape_returns:
  "seg_id (heap w r) \<noteq> ''__proto__'' \<Longrightarrow> \<exists>sh w'. addSegmentShape r w = Inr (sh, w')"
  by (simp add: addSegmentShape_def createSegmentShape_def set_property_def Let_def)

lemma addSegmentShape_consistent:
  assumes "consistent w" and "r \<in> set (segments w)" and "addSegmentShape r w = Inr (sh, w')"
  shows "consistent w'"
  using assms(1,2) addSegmentShape_Inr[OF assms(3)]
  by (auto simp: consistent_iff update_conv' distinct_update)

subsection \<open>removeSegment\<close>

lemma removeSegment_Inr:
  assumes "removeSegment r w = Inr w'"
  shows "heap w' = heap w" "segments w' = segments w" "view w' = view w"
    "subscriptions w' = subscriptions w"
    "map_of (segmentShapes w') = (map_of (segmentShapes w))(seg_id (heap w r) := None)"
    "distinct (map fst (segmentShapes w)) \<Longrightarrow> distinct (map fst (segmentShapes w'))"
  using assms
  by (auto simp: removeSegment_def get_property_cases delete_conv' distinct_delete
      split: table_value.splits)

lemma removeSegment_returns:
  "map_of (segmentShapes w) (seg_id (heap w r)) \<noteq> None \<or>
   seg_id (heap w r) \<notin> set Object_prototype_names \<Longrightarrow> \<exists>w'. removeSegment r w = Inr w'"
  by (auto simp: removeSegment_def get_property_def split: option.splits)

lemma removeSegment_consistent:
  assumes "consistent w" and "removeSegment r w = Inr w'"
  shows "consistent w'"
  using assms(1) removeSegment_Inr[OF assms(2)]
  by (auto simp: consistent_iff split: if_splits)

subsection \<open>updateSegment\<close>

lemma updateSegment_Inr:
  assumes "updateSegment r w = Inr w'"
  shows "heap w' = heap w" "segments w' = segments w" "view w' = view w"
    "subscriptions w' = subscriptions w"
    "proxies w' = insert (seg_id (heap w r)) (proxies w)"
    "consistent w \<Longrightarrow> r \<in> set (segments w) \<Longrightarrow> consistent w'"
proof -
  consider (own) sh where "map_of (segmentShapes w) (seg_id (heap w r)) = Some sh"
      "w' = w\<lparr>effects := effects w @ [UpdatePosition sh]\<rparr>"
    | (new) sh w1 where "map_of (segmentShapes w) (seg_id (heap w r)) = None"
      "addSegmentShape r w = Inr (sh, w1)" "w' = w1\<lparr>effects := effects w1 @ [UpdatePosition sh]\<rparr>"
    using assms
    by (auto simp: updateSegment_def findOrAddSegmentShape_def get_property_def
        split: option.splits if_splits sum.splits table_value.splits)
  then have "heap w' = heap w \<and> segments w' = segments w \<and> view w' = view w \<and>
    subscriptions w' = subscriptions w \<and>
    proxies w' = insert (seg_id (heap w r)) (proxies w) \<and>
    (consistent w \<longrightarrow> r \<in> set (segments w) \<longrightarrow> consistent w')"
  proof cases
    case own
    then show ?thesis
      by (auto simp: proxies_dom)
  next
    case new
    note a = addSegmentShape_Inr[OF new(2)]
    have "proxies w1 = insert (seg_id (heap w r)) (proxies w)"
      by (simp add: proxies_def a(6) dom_update)
    with new(3) a addSegmentShape_consistent[OF _ _ new(2)] show ?thesis
      by simp
  qed
  then show "heap w' = heap w" "segments w' = segments w" "view w' = view w"
    "subscriptions w' = subscriptions w"
    "proxies w' = insert (seg_id (heap w r)) (proxies w)"
    "consistent w \<Longrightarrow> r \<in> set (segments w) \<Longrightarrow> consistent w'"
    by simp_all
qed

lemma updateSegment_returns:
  assumes "map_of (segmentShapes w) (seg_id (heap w r)) \<noteq> None \<or>
           seg_id (heap w r) \<notin> set Object_prototype_names"
  shows "\<exists>w'. updateSegment r w = Inr w'"
proof (cases "map_of (segmentShapes w) (seg_id (heap w r))")
  case (Some sh)
  then show ?thesis
    by (simp add: updateSegment_def findOrAddSegmentShape_def get_property_def)
next
  case None
  with assms have n: "seg_id (heap w r) \<notin> set Object_prototype_names" by simp
  then have "seg_id (heap w r) \<noteq> ''__proto__''"
    using proto_is_prototype_name by auto
  from addSegmentShape_returns[OF this] obtain sh w1 where "addSegmentShape r w = Inr (sh, w1)"
    by blast
  with None n show ?thesis
    by (simp add: updateSegment_def findOrAddSegmentShape_def get_property_def)
qed

subsection \<open>The update loop\<close>

lemma forEach_updateSegment_Inr:
  assumes "forEach updateSegment rs w = Inr w'"
  shows "heap w' = heap w \<and> segments w' = segments w \<and> view w' = view w \<and>
     subscriptions w' = subscriptions w \<and>
     proxies w' = proxies w \<union> (\<lambda>r. seg_id (heap w r)) ` set rs \<and>
     (consistent w \<longrightarrow> set rs \<subseteq> set (segments w) \<longrightarrow> consistent w')"
  using assms
proof (induction rs arbitrary: w)
  case Nil
  then show ?case by simp
next
  case (Cons r rs)
  from Cons.prems obtain w1 where w1: "updateSegment r w = Inr w1"
    "forEach updateSegment rs w1 = Inr w'"
    by (cases "updateSegment r w") simp_all
  note u = updateSegment_Inr[OF w1(1)]
  from Cons.IH[OF w1(2)] u show ?case
    by auto
qed

lemma forEach_updateSegment_returns:
  assumes "\<forall>r\<in>set rs. seg_id (heap w r) \<notin> set Object_prototype_names"
  shows "\<exists>w'. forEach updateSegment rs w = Inr w'"
proof -
  have "\<exists>w'. forEach updateSegment rs w = Inr w' \<and> heap w' = heap w"
  proof (rule forEach_returns)
    show "heap w = heap w" by simp
  next
    fix r and s :: layer_world
    assume r: "r \<in> set rs" and h: "heap s = heap w"
    with assms have "seg_id (heap s r) \<notin> set Object_prototype_names" by simp
    then obtain s' where s': "updateSegment r s = Inr s'"
      using updateSegment_returns[of s r] by blast
    with updateSegment_Inr(1)[OF s'] h show "\<exists>s'. updateSegment r s = Inr s' \<and> heap s' = heap w"
      by simp
  qed
  then show ?thesis by blast
qed

subsection \<open>The removal loop\<close>


lemma removeInvisible_loop_returns:
  assumes "consistent w"
  shows "\<exists>w' c'. removeInvisible_loop ks t0 t1 (w, c) = Inr (w', c')"
  using assms
proof (induction ks arbitrary: w c)
  case Nil
  then show ?case by simp
next
  case (Cons k ks)
  show ?case
  proof (cases "map_of (segmentShapes w) k")
    case None
    with Cons.IH[OF Cons.prems, of c] show ?thesis by simp
  next
    case (Some sh)
    have key: "seg_id (heap w (getSegment sh)) = k"
      using Cons.prems Some by (simp add: consistent_iff)
    show ?thesis
    proof (cases "isVisible (heap w (getSegment sh)) t0 t1")
      case True
      with Some Cons.IH[OF Cons.prems, of c] show ?thesis by simp
    next
      case False
      have "map_of (segmentShapes w) (seg_id (heap w (getSegment sh))) \<noteq> None \<or>
            seg_id (heap w (getSegment sh)) \<notin> set Object_prototype_names"
        using Some key by simp
      from removeSegment_returns[OF this] obtain w1 where
        w1: "removeSegment (getSegment sh) w = Inr w1"
        by blast
      have "consistent w1"
        using Cons.prems w1 by (rule removeSegment_consistent)
      from Cons.IH[OF this, of "c + 1"] Some False w1 show ?thesis
        by simp
    qed
  qed
qed

subsection \<open>updateSegments\<close>

lemma draw_frame [simp]:
  "heap (draw w) = heap w" "segments (draw w) = segments w" "view (draw w) = view w"
  "subscriptions (draw w) = subscriptions w" "segmentShapes (draw w) = segmentShapes w"
  by (simp_all add: draw_def)

lemma draw_consistent [simp]: "consistent (draw w) = consistent w"
  by (simp add: draw_def)

lemma draw_proxies [simp]: "proxies (draw w) = proxies w"
  by (simp add: proxies_def)

lemma draw_redraws:
  "redraws (draw w) = redraws w + (if getName (view w) = ''overview'' then 0 else 1)"
  by (simp add: draw_def redraws_def)

lemma find_segments_subset: "set (find_segments w t0 t1) \<subseteq> set (segments w)"
  by (auto simp: find_segments_def)

lemma find_segments_cong:
  "heap w' = heap w \<Longrightarrow> segments w' = segments w \<Longrightarrow> find_segments w' t0 t1 = find_segments w t0 t1"
  by (simp add: find_segments_def)


lemma updateSegments_returns:
  assumes "consistent w"
    and "\<forall>r\<in>set (find_segments w t0 t1). seg_id (heap w r) \<notin> set Object_prototype_names"
  shows "\<exists>w'. updateSegments t0 t1 w = Inr w'"
proof -
  from forEach_updateSegment_returns[OF assms(2)] obtain w1 where
    w1: "forEach updateSegment (find_segments w t0 t1) w = Inr w1"
    by blast
  from forEach_updateSegment_Inr[OF w1] assms(1) find_segments_subset[of w t0 t1]
  have "consistent w1" by blast
  from removeInvisible_loop_returns[OF this, of "map fst (segmentShapes w1)" t0 t1 0]
  obtain w2 removed where "removeInvisibleSegments t0 t1 w1 = Inr (w2, removed)"
    by (auto simp: removeInvisibleSegments_def)
  with w1 show ?thesis
    by (simp add: updateSegments_def Let_def)
qed

subsection \<open>Delivery to the layer's listeners\<close>

lemma emit_layer:
  assumes "subscriptions w = layer_subscriptions"
  shows "emit (n_update r) w = onSegmentsUpdate r w"
    and "emit (n_add rs) w = onSegmentsAdd rs w"
    and "emit (n_remove rs) w = onSegmentsRemove rs w"
    and "emit (n_hide rs) w = onSegmentsHide rs w"
    and "emit n_remove_all w = Inr (onSegmentsRemoveAll w)"
    and "emit (n_dragged r) w = onSegmentsDragged r w"
  by (simp_all add: emit_def assms layer_subscriptions_def split: sum.splits)

subsection \<open>The handlers keep the layer and the store in agreement\<close>

lemma forEach_add_visible:
  assumes "forEach (\<lambda>segment w'. if isVisible (heap w' segment) a b
                      then (case addSegmentShape segment w' of
                              Inl e \<Rightarrow> Inl e | Inr (sh, w'') \<Rightarrow> Inr w'')
                      else Inr w') rs w = Inr w'"
    and "consistent w" and "set rs \<subseteq> set (segments w)"
  shows "consistent w' \<and> heap w' = heap w \<and> segments w' = segments w \<and> view w' = view w \<and>
     subscriptions w' = subscriptions w"
proof (rule forEach_invariant[OF assms(1)])
  show "consistent w \<and> heap w = heap w \<and> segments w = segments w \<and> view w = view w \<and>
     subscriptions w = subscriptions w"
    using assms(2) by simp
next
  fix r and s s' :: layer_world
  assume r: "r \<in> set rs"
    and p: "consistent s \<and> heap s = heap w \<and> segments s = segments w \<and> view s = view w \<and>
     subscriptions s = subscriptions w"
    and s': "(if isVisible (heap s r) a b
              then (case addSegmentShape r s of Inl e \<Rightarrow> Inl e | Inr (sh, w'') \<Rightarrow> Inr w'')
              else Inr s) = Inr s'"
  show "consistent s' \<and> heap s' = heap w \<and> segments s' = segments w \<and> view s' = view w \<and>
     subscriptions s' = subscriptions w"
  proof (cases "isVisible (heap s r) a b")
    case False
    with s' p show ?thesis by simp
  next
    case True
    with s' obtain sh where a: "addSegmentShape r s = Inr (sh, s')"
      by (auto split: sum.splits)
    have "r \<in> set (segments s)" using r assms(3) p by auto
    with p a addSegmentShape_consistent[OF _ _ a] addSegmentShape_Inr(1-4)[OF a]
    show ?thesis by simp
  qed
qed








lemma SegmentsLayer_consistent:
  "distinct (map (\<lambda>r. seg_id (h r)) segs) \<Longrightarrow>
     consistent (SegmentsLayer v h segs []) \<and>
     subscriptions (SegmentsLayer v h segs []) = layer_subscriptions"
  by (simp add: SegmentsLayer_def consistent_def peaks_on_def layer_subscriptions_def)

subsection \<open>The handlers return when no id is a name of the prototype\<close>

lemma not_proto:
  "k \<notin> set Object_prototype_names \<Longrightarrow> k \<noteq> ''__proto__''"
  using proto_is_prototype_name by auto

lemma forEach_add_visible_returns:
  assumes "\<forall>r. seg_id (heap w r) \<notin> set Object_prototype_names"
  shows "\<exists>w'. forEach (\<lambda>segment w'. if isVisible (heap w' segment) a b
                      then (case addSegmentShape segment w' of
                              Inl e \<Rightarrow> Inl e | Inr (sh, w'') \<Rightarrow> Inr w'')
                      else Inr w') rs w = Inr w'"
proof -
  let ?f = "\<lambda>segment w'. if isVisible (heap w' segment) a b
                      then (case addSegmentShape segment w' of
                              Inl e \<Rightarrow> Inl e | Inr (sh, w'') \<Rightarrow> Inr w'')
                      else Inr w'"
  have "\<exists>w'. forEach ?f rs w = Inr w' \<and> heap w' = heap w"
  proof (rule forEach_returns)
    show "heap w = heap w" by simp
  next
    fix r and s :: layer_world
    assume h: "heap s = heap w"
    with assms have "seg_id (heap s r) \<noteq> ''__proto__''"
      by (simp add: not_proto)
    from addSegmentShape_returns[OF this] obtain sh s' where a: "addSegmentShape r s = Inr (sh, s')"
      by blast
    with addSegmentShape_Inr(1)[OF a] h show "\<exists>s'. ?f r s = Inr s' \<and> heap s' = heap w"
      by simp
  qed
  then show ?thesis by blast
qed

lemma onSegmentsAdd_returns:
  assumes "consistent w" and "set rs \<subseteq> set (segments w)"
    and "\<forall>r. seg_id (heap w r) \<notin> set Object_prototype_names"
  shows "\<exists>w'. onSegmentsAdd rs w = Inr w'"
proof -
  from forEach_add_visible_returns[OF assms(3), of "frameStartTime w" "frameEndTime w" rs]
  obtain w1 where
    w1: "forEach (\<lambda>segment w'. if isVisible (heap w' segment) (frameStartTime w) (frameEndTime w)
                      then (case addSegmentShape segment w' of
                              Inl e \<Rightarrow> Inl e | Inr (sh, w'') \<Rightarrow> Inr w'')
                      else Inr w') rs w = Inr w1"
    by blast
  note f = forEach_add_visible[OF w1 assms(1,2)]
  then have c: "consistent w1" by simp
  have "\<forall>r\<in>set (find_segments w1 (frameStartTime w) (frameEndTime w)).
          seg_id (heap w1 r) \<notin> set Object_prototype_names"
    using f assms(3) by simp
  from updateSegments_returns[OF c this] w1 show ?thesis
    by (simp add: onSegmentsAdd_def)
qed

lemma onSegmentsUpdate_returns:
  assumes "consistent w" and "r \<in> set (segments w)"
    and "\<forall>r. seg_id (heap w r) \<notin> set Object_prototype_names"
  shows "\<exists>w'. onSegmentsUpdate r w = Inr w'"
proof -
  let ?P = "\<lambda>s. consistent s \<and> heap s = heap w \<and> segments s = segments w"
  let ?a = "frameStartTime w" and ?b = "frameEndTime w"
  have "\<exists>w1 b1. (if get_property (segmentShapes w) (seg_id (heap w r)) \<noteq> no_value
               then (case removeSegment r w of
                       Inl e \<Rightarrow> Inl e | Inr w' \<Rightarrow> Inr (w', True))
               else Inr (w, False)) = Inr (w1, b1) \<and> ?P w1"
  proof (cases "get_property (segmentShapes w) (seg_id (heap w r)) = no_value")
    case True
    with assms(1) show ?thesis by auto
  next
    case False
    have "seg_id (heap w r) \<notin> set Object_prototype_names" using assms(3) by simp
    then have "map_of (segmentShapes w) (seg_id (heap w r)) \<noteq> None \<or>
               seg_id (heap w r) \<notin> set Object_prototype_names" by simp
    from removeSegment_returns[OF this] obtain w1 where a: "removeSegment r w = Inr w1"
      by blast
    from removeSegment_consistent[OF assms(1) a] removeSegment_Inr(1,2)[OF a] a False
    show ?thesis by auto
  qed
  then obtain w1 b1 where
    s1: "(if get_property (segmentShapes w) (seg_id (heap w r)) \<noteq> no_value
               then (case removeSegment r w of
                       Inl e \<Rightarrow> Inl e | Inr w' \<Rightarrow> Inr (w', True))
               else Inr (w, False)) = Inr (w1, b1)" and p1: "?P w1"
    by blast
  have "\<exists>w2 b2. (if isVisible (heap w1 r) ?a ?b
                    then (case addSegmentShape r w1 of
                            Inl e \<Rightarrow> Inl e | Inr (sh, w') \<Rightarrow> Inr (w', True))
                    else Inr (w1, b1)) = Inr (w2, b2) \<and> ?P w2"
  proof (cases "isVisible (heap w1 r) ?a ?b")
    case False
    with p1 show ?thesis by auto
  next
    case True
    have "seg_id (heap w1 r) \<noteq> ''__proto__''"
      using assms(3) p1 by (simp add: not_proto)
    from addSegmentShape_returns[OF this] obtain sh w2 where a: "addSegmentShape r w1 = Inr (sh, w2)"
      by blast
    have "r \<in> set (segments w1)" using p1 assms(2) by simp
    from addSegmentShape_consistent[OF _ this a] addSegmentShape_Inr(1,2)[OF a] p1 a True
    show ?thesis by auto
  qed
  then obtain w2 b2 where
    s2: "(if isVisible (heap w1 r) ?a ?b
                    then (case addSegmentShape r w1 of
                            Inl e \<Rightarrow> Inl e | Inr (sh, w') \<Rightarrow> Inr (w', True))
                    else Inr (w1, b1)) = Inr (w2, b2)" and p2: "?P w2"
    by blast
  have c2: "consistent w2" using p2 by simp
  have "\<forall>r\<in>set (find_segments w2 ?a ?b). seg_id (heap w2 r) \<notin> set Object_prototype_names"
    using p2 assms(3) by simp
  from updateSegments_returns[OF c2 this] obtain w3 where
    s3: "updateSegments ?a ?b w2 = Inr w3"
    by blast
  have "onSegmentsUpdate r w =
          (case (if isVisible (heap w1 r) ?a ?b
                 then (case addSegmentShape r w1 of
                         Inl e \<Rightarrow> Inl e | Inr (sh, w') \<Rightarrow> Inr (w', True))
                 else Inr (w1, b1)) of
             Inl e \<Rightarrow> Inl e
           | Inr (w2, redraw) \<Rightarrow> if redraw then updateSegments ?a ?b w2 else Inr w2)"
    unfolding onSegmentsUpdate_def Let_def s1 by simp
  also have "\<dots> = (if b2 then updateSegments ?a ?b w2 else Inr w2)"
    unfolding s2 by simp
  finally show ?thesis
    using s3 by simp
qed

lemma forEach_removeSegment_returns:
  assumes "\<forall>r. seg_id (heap w r) \<notin> set Object_prototype_names"
  shows "\<exists>w'. forEach removeSegment rs w = Inr w'"
proof -
  have "\<exists>w'. forEach removeSegment rs w = Inr w' \<and> heap w' = heap w"
  proof (rule forEach_returns)
    show "heap w = heap w" by simp
  next
    fix r and s :: layer_world
    assume h: "heap s = heap w"
    with assms have "map_of (segmentShapes s) (seg_id (heap s r)) \<noteq> None \<or>
               seg_id (heap s r) \<notin> set Object_prototype_names" by simp
    from removeSegment_returns[OF this] obtain s' where a: "removeSegment r s = Inr s'"
      by blast
    with removeSegment_Inr(1)[OF a] h show "\<exists>s'. removeSegment r s = Inr s' \<and> heap s' = heap w"
      by simp
  qed
  then show ?thesis by blast
qed

lemma onSegmentsRemove_returns:
  assumes "\<forall>r. seg_id (heap w r) \<notin> set Object_prototype_names"
  shows "\<exists>w'. onSegmentsRemove rs w = Inr w'"
  using forEach_removeSegment_returns[OF assms, of rs]
  by (auto simp: onSegmentsRemove_def)

subsection \<open>The operations of the store\<close>


lemma store_step_returns:
  assumes "consistent w" and "subscriptions w = layer_subscriptions" and "valid_op op w"
    and "\<forall>r. seg_id (heap w r) \<notin> set Object_prototype_names"
  shows "\<exists>w'. store_step op w = Inr w'"
proof (cases op)
  case (Add rs)
  let ?w = "w\<lparr>segments := segments w @ rs\<rparr>"
  have c: "consistent ?w"
    using assms(1,3) Add by (auto simp: consistent_def list_all_iff)
  have s: "set rs \<subseteq> set (segments ?w)" by simp
  have i: "\<forall>r. seg_id (heap ?w r) \<notin> set Object_prototype_names"
    using assms(4) by simp
  from onSegmentsAdd_returns[OF c s i] show ?thesis
    using assms(2) Add by (simp add: emit_layer)
next
  case (Update x st en)
  let ?w = "w\<lparr>heap := (heap w)(x := (heap w x)\<lparr>startTime := st, endTime := en\<rparr>)\<rparr>"
  have id: "seg_id (heap ?w y) = seg_id (heap w y)" for y by simp
  have c: "consistent ?w"
    using assms(1) unfolding consistent_def id by simp
  have s: "x \<in> set (segments ?w)"
    using assms(3) Update by simp
  have i: "\<forall>r. seg_id (heap ?w r) \<notin> set Object_prototype_names"
    unfolding id using assms(4) .
  from onSegmentsUpdate_returns[OF c s i] show ?thesis
    using assms(2) Update by (simp add: emit_layer)
next
  case (Remove rs)
  let ?w = "w\<lparr>segments := filter (\<lambda>r. r \<notin> set rs) (segments w)\<rparr>"
  have i: "\<forall>r. seg_id (heap ?w r) \<notin> set Object_prototype_names"
    using assms(4) by simp
  from onSegmentsRemove_returns[OF i, of rs] show ?thesis
    using assms(2) Remove by (simp add: emit_layer)
next
  case RemoveAll
  then show ?thesis
    using assms(2) by (simp add: emit_layer)
qed


subsection \<open>Reconciliation after any sequence of notifications\<close>

lemma example_layer_consistent:
  "consistent example_layer" "subscriptions example_layer = layer_subscriptions"
  using SegmentsLayer_consistent[of example_heap "[]" example_view]
  by (simp_all add: example_layer_def)

lemma example_layer_ids:
  "seg_id (heap example_layer r) \<notin> set Object_prototype_names"
  by (simp add: example_layer_def SegmentsLayer_def example_heap_def Object_prototype_names_def)





text \<open>
  The condition on the ids is needed. A segment with the id \<^verbatim>\<open>constructor\<close> is added
  outside the frame, so that it gets no shape; \<^verbatim>\<open>updateSegments(25, 45)\<close> then reads
  \<^verbatim>\<open>_segmentShapes['constructor']\<close>, gets the function inherited from
  \<^verbatim>\<open>Object.prototype\<close>, and the call of \<^verbatim>\<open>updatePosition()\<close> on it throws.
\<close>

lemma updateSegments_stops_at_prototype_name:
  "run [Add [0]] example_named_layer = Some (Inr example_named_added) \<and>
   proxies example_named_added = {} \<and>
   updateSegments 25 45 example_named_added = Inl TypeError"
proof -
  have v: "valid_op (Add [0]) example_named_layer"
    by code_simp
  have "case store_step (Add [0]) example_named_layer of Inr w \<Rightarrow> True | Inl e \<Rightarrow> False"
    by code_simp
  then have s: "store_step (Add [0]) example_named_layer = Inr example_named_added"
    by (auto simp: example_named_added_def split: sum.splits)
  have a: "run [Add [0]] example_named_layer = Some (Inr example_named_added)"
    by (simp only: run.simps v s if_True sum.case)
  have b: "proxies example_named_added = {}"
    by code_simp
  have "case updateSegments 25 45 example_named_added of
          Inl e \<Rightarrow> e = TypeError | Inr w' \<Rightarrow> False"
    by code_simp
  then have c: "updateSegments 25 45 example_named_added = Inl TypeError"
    by (auto split: sum.splits)
  from a b c show ?thesis
    by simp
qed

subsection \<open>Redraws and teardown\<close>

lemma example_added_eq:
  "store_step (Add [0]) example_layer = Inr example_added"
proof -
  have "valid_op (Add [0]) example_layer"
    by code_simp
  from store_step_returns[OF example_layer_consistent this] example_layer_ids
  obtain w where "store_step (Add [0]) example_layer = Inr w"
    by blast
  then show ?thesis
    by (simp add: example_added_def)
qed

lemma example_overview_added_eq:
  "store_step (Add [0]) example_overview = Inr example_overview_added"
proof -
  have "case store_step (Add [0]) example_overview of Inr w \<Rightarrow> True | Inl e \<Rightarrow> False"
    by code_simp
  then show ?thesis
    by (auto simp: example_overview_added_def split: sum.splits)
qed

text \<open>
  C2. In the zoom view with the frame 0 to 20, s1 (5 to 10) is the only segment and is
  displayed. The store moves it to 30 to 40 and notifies the layer:
  \<^verbatim>\<open>_onSegmentsUpdate\<close> destroys its shape and creates none, sets
  \<^verbatim>\<open>redraw = true\<close> and calls \<^verbatim>\<open>updateSegments\<close>, which finds no segment and
  removes no shape, so that its count is 0 and it does not redraw. The only call made is
  the destruction of the shape: the Konva layer is not redrawn.
\<close>

theorem sole_segment_moved_out_no_redraw:
  "run [Add [0]] example_layer = Some (Inr example_added) \<and>
   getName (view example_added) = ''zoomview'' \<and>
   frameStartTime example_added = 0 \<and> frameEndTime example_added = 20 \<and>
   map_of (segmentShapes example_added) ''s1'' = Some \<lparr>shape_no = 0, getSegment = 0\<rparr> \<and>
   seg_id (heap example_added 0) = ''s1'' \<and>
   isVisible (heap example_added 0) 0 20 \<and>
   (\<exists>w'. run [Update 0 30 40] example_added = Some (Inr w') \<and>
      startTime (heap w' 0) = 30 \<and> endTime (heap w' 0) = 40 \<and>
      \<not> isVisible (heap w' 0) 0 20 \<and>
      effects w' = effects example_added @ [ShapeDestroy \<lparr>shape_no = 0, getSegment = 0\<rparr>] \<and>
      segmentShapes w' = [] \<and>
      redraws w' = redraws example_added)"
proof -
  have v: "valid_op (Add [0]) example_layer"
    by code_simp
  have a: "run [Add [0]] example_layer = Some (Inr example_added)"
    by (simp only: run.simps v example_added_eq if_True sum.case)
  have b: "getName (view example_added) = ''zoomview''"
    "frameStartTime example_added = 0" "frameEndTime example_added = 20"
    "map_of (segmentShapes example_added) ''s1'' = Some \<lparr>shape_no = 0, getSegment = 0\<rparr>"
    "seg_id (heap example_added 0) = ''s1''"
    "isVisible (heap example_added 0) 0 20"
    by code_simp+
  have u: "valid_op (Update 0 30 40) example_added"
    by code_simp
  have "case store_step (Update 0 30 40) example_added of
          Inr w' \<Rightarrow>
            startTime (heap w' 0) = 30 \<and> endTime (heap w' 0) = 40 \<and>
            \<not> isVisible (heap w' 0) 0 20 \<and>
            effects w' = effects example_added @ [ShapeDestroy \<lparr>shape_no = 0, getSegment = 0\<rparr>] \<and>
            segmentShapes w' = [] \<and>
            redraws w' = redraws example_added
        | Inl e \<Rightarrow> False"
    by code_simp
  then obtain w' where s: "store_step (Update 0 30 40) example_added = Inr w'"
    and c: "startTime (heap w' 0) = 30 \<and> endTime (heap w' 0) = 40 \<and>
            \<not> isVisible (heap w' 0) 0 20 \<and>
            effects w' = effects example_added @ [ShapeDestroy \<lparr>shape_no = 0, getSegment = 0\<rparr>] \<and>
            segmentShapes w' = [] \<and>
            redraws w' = redraws example_added"
    by (auto split: sum.splits)
  have "run [Update 0 30 40] example_added = Some (Inr w')"
    by (simp only: run.simps u s if_True sum.case)
  with a b c show ?thesis
    by blast
qed

text \<open>
  C3. \<^verbatim>\<open>destroy()\<close> removes five of the six listeners the constructor registered:
  the listener for \<^verbatim>\<open>segments.hide\<close> stays, and a hide notification emitted after
  the layer was destroyed still runs the layer's listener.
\<close>

theorem destroy_keeps_hide_subscription:
  "subscriptions example_added = layer_subscriptions \<and>
   subscriptions (destroy example_added) = [(''segments.hide'', onSegmentsHide_h)] \<and>
   (\<exists>w'. emit (n_hide [0]) (destroy example_added) = Inr w' \<and>
      effects w' =
        effects (destroy example_added) @ [ShapeHide \<lparr>shape_no = 0, getSegment = 0\<rparr>, LayerDraw] \<and>
      hidden (heap w' 0))"
proof -
  have a: "subscriptions example_added = layer_subscriptions"
    by code_simp
  have b: "subscriptions (destroy example_added) = [(''segments.hide'', onSegmentsHide_h)]"
    by code_simp
  have "case emit (n_hide [0]) (destroy example_added) of
          Inr w' \<Rightarrow>
            effects w' =
              effects (destroy example_added) @
                [ShapeHide \<lparr>shape_no = 0, getSegment = 0\<rparr>, LayerDraw] \<and>
            hidden (heap w' 0)
        | Inl e \<Rightarrow> False"
    by code_simp
  then have "\<exists>w'. emit (n_hide [0]) (destroy example_added) = Inr w' \<and>
      effects w' =
        effects (destroy example_added) @ [ShapeHide \<lparr>shape_no = 0, getSegment = 0\<rparr>, LayerDraw] \<and>
      hidden (heap w' 0)"
    by (auto split: sum.splits)
  with a b show ?thesis by simp
qed

text \<open>
  C4. \<^verbatim>\<open>destroy()\<close> leaves the table of shapes as it is, so a second call destroys
  every shape of the table again.
\<close>

theorem destroy_twice_destroys_again:
  "effects (destroy example_added) =
     effects example_added @ [ShapeDestroy \<lparr>shape_no = 0, getSegment = 0\<rparr>] \<and>
   segmentShapes (destroy example_added) = segmentShapes example_added \<and>
   effects (destroy (destroy example_added)) =
     effects (destroy example_added) @ [ShapeDestroy \<lparr>shape_no = 0, getSegment = 0\<rparr>]"
proof -
  have a: "effects (destroy example_added) =
     effects example_added @ [ShapeDestroy \<lparr>shape_no = 0, getSegment = 0\<rparr>]"
    by code_simp
  have b: "segmentShapes (destroy example_added) = segmentShapes example_added"
    by code_simp
  have c: "effects (destroy (destroy example_added)) =
     effects (destroy example_added) @ [ShapeDestroy \<lparr>shape_no = 0, getSegment = 0\<rparr>]"
    by code_simp
  from a b c show ?thesis by simp
qed

subsection \<open>Hiding\<close>

lemma hideSegment_Inr:
  assumes "hideSegment r w = Inr w'"
  shows "segmentShapes w' = segmentShapes w" "view w' = view w"
    "seg_id (heap w' x) = seg_id (heap w x)"
    "effects w' = effects w @
       (case map_of (segmentShapes w) (seg_id (heap w r)) of
          Some sh \<Rightarrow> [ShapeHide sh] | None \<Rightarrow> [])"
    "heap w' x =
       (if x = r \<and> map_of (segmentShapes w) (seg_id (heap w r)) \<noteq> None
        then (heap w x)\<lparr>hidden := True\<rparr> else heap w x)"
    "map_of (segmentShapes w) (seg_id (heap w r)) \<noteq> None \<or>
     seg_id (heap w r) \<notin> set Object_prototype_names"
  using assms
  by (auto simp: hideSegment_def get_property_def isHidden_set_def
      split: option.splits if_splits)

lemma hideSegment_returns:
  "map_of (segmentShapes w) (seg_id (heap w r)) \<noteq> None \<or>
   seg_id (heap w r) \<notin> set Object_prototype_names \<Longrightarrow> \<exists>w'. hideSegment r w = Inr w'"
  by (auto simp: hideSegment_def get_property_def split: option.splits)

lemma forEach_hideSegment_Inr:
  assumes "forEach hideSegment rs w = Inr w'"
  shows "segmentShapes w' = segmentShapes w \<and> view w' = view w \<and>
   effects w' =
     effects w @ map ShapeHide
       (List.map_filter (\<lambda>r. map_of (segmentShapes w) (seg_id (heap w r))) rs) \<and>
   (\<forall>x. heap w' x =
      (if x \<in> set rs \<and> map_of (segmentShapes w) (seg_id (heap w x)) \<noteq> None
       then (heap w x)\<lparr>hidden := True\<rparr> else heap w x)) \<and>
   (\<forall>r\<in>set rs. map_of (segmentShapes w) (seg_id (heap w r)) \<noteq> None \<or>
      seg_id (heap w r) \<notin> set Object_prototype_names)"
  using assms
proof (induction rs arbitrary: w)
  case Nil
  then show ?case by (simp add: map_filter_simps)
next
  case (Cons r rs)
  from Cons.prems obtain w1 where w1: "hideSegment r w = Inr w1"
    "forEach hideSegment rs w1 = Inr w'"
    by (cases "hideSegment r w") simp_all
  note h = hideSegment_Inr[OF w1(1)]
  have ih: "segmentShapes w' = segmentShapes w \<and> view w' = view w \<and>
   effects w' =
     effects w1 @ map ShapeHide
       (List.map_filter (\<lambda>r. map_of (segmentShapes w) (seg_id (heap w r))) rs) \<and>
   (\<forall>x. heap w' x =
      (if x \<in> set rs \<and> map_of (segmentShapes w) (seg_id (heap w x)) \<noteq> None
       then (heap w1 x)\<lparr>hidden := True\<rparr> else heap w1 x)) \<and>
   (\<forall>r\<in>set rs. map_of (segmentShapes w) (seg_id (heap w r)) \<noteq> None \<or>
      seg_id (heap w r) \<notin> set Object_prototype_names)"
    using Cons.IH[OF w1(2)] unfolding h(1) h(2) h(3) .
  have e: "effects w' =
     effects w @ map ShapeHide
       (List.map_filter (\<lambda>r. map_of (segmentShapes w) (seg_id (heap w r))) (r # rs))"
    using ih h(4) by (simp add: map_filter_simps split: option.splits)
  have hp: "heap w' x =
      (if x \<in> set (r # rs) \<and> map_of (segmentShapes w) (seg_id (heap w x)) \<noteq> None
       then (heap w x)\<lparr>hidden := True\<rparr> else heap w x)" for x
  proof -
    from ih have "heap w' x =
      (if x \<in> set rs \<and> map_of (segmentShapes w) (seg_id (heap w x)) \<noteq> None
       then (heap w1 x)\<lparr>hidden := True\<rparr> else heap w1 x)"
      by simp
    then show ?thesis
      unfolding h(5) by auto
  qed
  have ok: "\<forall>r'\<in>set (r # rs). map_of (segmentShapes w) (seg_id (heap w r')) \<noteq> None \<or>
      seg_id (heap w r') \<notin> set Object_prototype_names"
    using ih h(6) by simp
  from ih e hp ok show ?case
    by simp
qed

lemma forEach_hideSegment_returns:
  assumes "\<forall>r\<in>set rs. map_of (segmentShapes w) (seg_id (heap w r)) \<noteq> None \<or>
      seg_id (heap w r) \<notin> set Object_prototype_names"
  shows "\<exists>w'. forEach hideSegment rs w = Inr w'"
proof -
  let ?Q = "\<lambda>s. segmentShapes s = segmentShapes w \<and> (\<forall>x. seg_id (heap s x) = seg_id (heap w x))"
  have "\<exists>w'. forEach hideSegment rs w = Inr w' \<and> ?Q w'"
  proof (rule forEach_returns)
    show "?Q w" by simp
  next
    fix r and s :: layer_world
    assume r: "r \<in> set rs" and q: "?Q s"
    with assms have "map_of (segmentShapes s) (seg_id (heap s r)) \<noteq> None \<or>
               seg_id (heap s r) \<notin> set Object_prototype_names" by simp
    from hideSegment_returns[OF this] obtain s' where a: "hideSegment r s = Inr s'"
      by blast
    from hideSegment_Inr(1,3)[OF a] q have "?Q s'" by simp
    with a show "\<exists>s'. hideSegment r s = Inr s' \<and> ?Q s'"
      by blast
  qed
  then show ?thesis by blast
qed

text \<open>
  C9, as amended. A hide listener that returns has left the table of shapes as it is; the
  calls it made are \<^verbatim>\<open>hide()\<close> on the shape of each given segment that holds one, in
  the order given, and then one redraw of the Konva layer for the whole list, unless the
  view is the overview, where it makes none. Every given segment that holds a shape is
  marked hidden, keeps its id, and its shape is still in the table afterwards. The listener
  returns exactly when every given segment holds a shape or has an id that is not a
  property name of \<^verbatim>\<open>Object.prototype\<close>.
\<close>

theorem onSegmentsHide_hides_proxies:
  "(\<forall>w'. onSegmentsHide rs w = Inr w' \<longrightarrow>
      segmentShapes w' = segmentShapes w \<and>
      effects w' =
        effects w @
        map ShapeHide (List.map_filter (\<lambda>r. map_of (segmentShapes w) (seg_id (heap w r))) rs) @
        (if getName (view w) = ''overview'' then [] else [LayerDraw]) \<and>
      redraws w' = redraws w + (if getName (view w) = ''overview'' then 0 else 1) \<and>
      (\<forall>r sh. r \<in> set rs \<and> map_of (segmentShapes w) (seg_id (heap w r)) = Some sh \<longrightarrow>
         hidden (heap w' r) \<and>
         seg_id (heap w' r) = seg_id (heap w r) \<and>
         ShapeHide sh \<in> set (effects w') \<and>
         map_of (segmentShapes w') (seg_id (heap w r)) = Some sh)) \<and>
   ((\<exists>w'. onSegmentsHide rs w = Inr w') =
      (\<forall>r\<in>set rs. map_of (segmentShapes w) (seg_id (heap w r)) \<noteq> None \<or>
          seg_id (heap w r) \<notin> set Object_prototype_names)) \<and>
   (subscriptions w = layer_subscriptions \<longrightarrow> emit (n_hide rs) w = onSegmentsHide rs w)"
proof (intro conjI allI impI)
  fix w' assume a: "onSegmentsHide rs w = Inr w'"
  then obtain w1 where w1: "forEach hideSegment rs w = Inr w1" and w': "w' = draw w1"
    by (auto simp: onSegmentsHide_def split: sum.splits)
  note f = forEach_hideSegment_Inr[OF w1]
  let ?shs = "List.map_filter (\<lambda>r. map_of (segmentShapes w) (seg_id (heap w r))) rs"
  show s: "segmentShapes w' = segmentShapes w"
    using f w' by simp
  show ef: "effects w' = effects w @ map ShapeHide ?shs @
        (if getName (view w) = ''overview'' then [] else [LayerDraw])"
    using f w' by (simp add: draw_def)
  have "redraws w1 = redraws w"
    using f by (auto simp: redraws_def count_list_0_iff)
  then show "redraws w' = redraws w + (if getName (view w) = ''overview'' then 0 else 1)"
    using f w' by (simp add: draw_redraws)
  fix r sh
  assume r: "r \<in> set rs \<and> map_of (segmentShapes w) (seg_id (heap w r)) = Some sh"
  then have m: "sh \<in> set ?shs"
    by (force simp: map_filter_def)
  have h: "heap w' r = (heap w r)\<lparr>hidden := True\<rparr>"
    using f w' r by simp
  show "hidden (heap w' r)" using h by simp
  show "seg_id (heap w' r) = seg_id (heap w r)" using h by simp
  show "ShapeHide sh \<in> set (effects w')" unfolding ef using m by simp
  show "map_of (segmentShapes w') (seg_id (heap w r)) = Some sh" unfolding s using r by simp
next
  show "(\<exists>w'. onSegmentsHide rs w = Inr w') =
      (\<forall>r\<in>set rs. map_of (segmentShapes w) (seg_id (heap w r)) \<noteq> None \<or>
          seg_id (heap w r) \<notin> set Object_prototype_names)"
  proof
    assume "\<exists>w'. onSegmentsHide rs w = Inr w'"
    then obtain w1 where "forEach hideSegment rs w = Inr w1"
      by (auto simp: onSegmentsHide_def split: sum.splits)
    from forEach_hideSegment_Inr[OF this]
    show "\<forall>r\<in>set rs. map_of (segmentShapes w) (seg_id (heap w r)) \<noteq> None \<or>
          seg_id (heap w r) \<notin> set Object_prototype_names"
      by blast
  next
    assume "\<forall>r\<in>set rs. map_of (segmentShapes w) (seg_id (heap w r)) \<noteq> None \<or>
          seg_id (heap w r) \<notin> set Object_prototype_names"
    from forEach_hideSegment_returns[OF this]
    show "\<exists>w'. onSegmentsHide rs w = Inr w'"
      by (auto simp: onSegmentsHide_def)
  qed
next
  assume "subscriptions w = layer_subscriptions"
  then show "emit (n_hide rs) w = onSegmentsHide rs w"
    by (rule emit_layer(4))
qed

text \<open>
  The displayed segment s1 and the segment s2, which holds no shape, are hidden together.
\<close>

theorem onSegmentsHide_hides_proxies_witness:
  "(0::seg_ref) \<in> set [0, 1] \<and>
   map_of (segmentShapes example_added) (seg_id (heap example_added 0)) =
     Some \<lparr>shape_no = 0, getSegment = 0\<rparr> \<and>
   map_of (segmentShapes example_added) (seg_id (heap example_added 1)) = None \<and>
   seg_id (heap example_added 1) \<notin> set Object_prototype_names \<and>
   subscriptions example_added = layer_subscriptions \<and>
   (\<exists>w'. emit (n_hide [0, 1]) example_added = Inr w' \<and>
      segmentShapes w' = segmentShapes example_added \<and>
      effects w' =
        effects example_added @ [ShapeHide \<lparr>shape_no = 0, getSegment = 0\<rparr>, LayerDraw] \<and>
      hidden (heap w' 0) \<and>
      redraws w' = redraws example_added + 1)"
proof -
  have a: "(0::nat) \<in> set [0, 1]" by simp
  have m: "map_of (segmentShapes example_added) (seg_id (heap example_added 0)) =
     Some \<lparr>shape_no = 0, getSegment = 0\<rparr>"
    by code_simp
  have n: "map_of (segmentShapes example_added) (seg_id (heap example_added 1)) = None"
    by code_simp
  have o: "seg_id (heap example_added 1) \<notin> set Object_prototype_names"
    by code_simp
  have s: "subscriptions example_added = layer_subscriptions"
    by code_simp
  have v: "getName (view example_added) \<noteq> ''overview''"
    by code_simp
  have l: "List.map_filter (\<lambda>r. map_of (segmentShapes example_added) (seg_id (heap example_added r))) [0, 1] =
           [\<lparr>shape_no = 0, getSegment = 0\<rparr>]"
    by code_simp
  note t = onSegmentsHide_hides_proxies[of "[0, 1]" example_added]
  from t s have e: "emit (n_hide [0, 1]) example_added = onSegmentsHide [0, 1] example_added"
    by blast
  have "\<forall>r\<in>set [0, 1]. map_of (segmentShapes example_added) (seg_id (heap example_added r)) \<noteq> None \<or>
          seg_id (heap example_added r) \<notin> set Object_prototype_names"
    using m o by simp
  with t obtain w' where w': "onSegmentsHide [0, 1] example_added = Inr w'"
    by blast
  from t w' a m have "hidden (heap w' 0)"
    by blast
  moreover from t w' have "effects w' = effects example_added @
        map ShapeHide (List.map_filter (\<lambda>r. map_of (segmentShapes example_added) (seg_id (heap example_added r))) [0, 1]) @
        (if getName (view example_added) = ''overview'' then [] else [LayerDraw])"
    by blast
  then have "effects w' =
     effects example_added @ [ShapeHide \<lparr>shape_no = 0, getSegment = 0\<rparr>, LayerDraw]"
    unfolding l using v by simp
  moreover from t w' have "redraws w' = redraws example_added +
       (if getName (view example_added) = ''overview'' then 0 else 1)"
    by blast
  then have "redraws w' = redraws example_added + 1"
    using v by simp
  moreover from t w' have "segmentShapes w' = segmentShapes example_added"
    by blast
  ultimately show ?thesis
    using a m n o s w' unfolding e by blast
qed

text \<open>
  C9 as stated fails: a given segment that holds no shape (s2 here) is not marked hidden;
  in the overview the shape is hidden but no redraw is issued; and for a given segment
  with the id \<^verbatim>\<open>constructor\<close> that holds no shape, \<^verbatim>\<open>hide()\<close> is called on the
  function inherited from \<^verbatim>\<open>Object.prototype\<close> and throws before any redraw.
\<close>

theorem hide_without_proxy_or_in_overview:
  "map_of (segmentShapes example_added) (seg_id (heap example_added 1)) = None \<and>
   (\<exists>w'. emit (n_hide [1]) example_added = Inr w' \<and> \<not> hidden (heap w' 1)) \<and>
   map_of (segmentShapes example_overview_added) (seg_id (heap example_overview_added 0)) =
     Some \<lparr>shape_no = 0, getSegment = 0\<rparr> \<and>
   (\<exists>w'. emit (n_hide [0]) example_overview_added = Inr w' \<and>
      effects w' =
        effects example_overview_added @ [ShapeHide \<lparr>shape_no = 0, getSegment = 0\<rparr>] \<and>
      redraws w' = redraws example_overview_added) \<and>
   seg_id (heap example_named_added 0) = ''constructor'' \<and>
   segmentShapes example_named_added = [] \<and>
   emit (n_hide [0]) example_named_added = Inl TypeError"
proof -
  have a: "map_of (segmentShapes example_added) (seg_id (heap example_added 1)) = None"
    by code_simp
  have "case emit (n_hide [1]) example_added of
          Inr w' \<Rightarrow> \<not> hidden (heap w' 1) | Inl e \<Rightarrow> False"
    by code_simp
  then have b: "\<exists>w'. emit (n_hide [1]) example_added = Inr w' \<and> \<not> hidden (heap w' 1)"
    by (auto split: sum.splits)
  have c: "map_of (segmentShapes example_overview_added) (seg_id (heap example_overview_added 0)) =
     Some \<lparr>shape_no = 0, getSegment = 0\<rparr>"
    by code_simp
  have "case emit (n_hide [0]) example_overview_added of
          Inr w' \<Rightarrow>
            effects w' =
              effects example_overview_added @ [ShapeHide \<lparr>shape_no = 0, getSegment = 0\<rparr>] \<and>
            redraws w' = redraws example_overview_added
        | Inl e \<Rightarrow> False"
    by code_simp
  then have d: "\<exists>w'. emit (n_hide [0]) example_overview_added = Inr w' \<and>
      effects w' =
        effects example_overview_added @ [ShapeHide \<lparr>shape_no = 0, getSegment = 0\<rparr>] \<and>
      redraws w' = redraws example_overview_added"
    by (auto split: sum.splits)
  have e: "seg_id (heap example_named_added 0) = ''constructor''"
    "segmentShapes example_named_added = []"
    by code_simp+
  have "case emit (n_hide [0]) example_named_added of
          Inl e \<Rightarrow> e = TypeError | Inr w' \<Rightarrow> False"
    by code_simp
  then have f: "emit (n_hide [0]) example_named_added = Inl TypeError"
    by (auto split: sum.splits)
  from a b c d e f show ?thesis by simp
qed

end
